theory Spec2Isabelle
  imports Main
begin

section \<open>The relay hub (SignalingGateway) and the producer page's candidate queue\<close>

text \<open>
  The hub is the class \<^verbatim>\<open>SignalingGateway\<close>. Its fields are the record \<open>hub\<close>; the
  vendor objects it holds references to (peer connections, media tracks) live in an
  explicit store, because several claims depend on which object a reference points
  to and on whether that object has been closed. Every handler is a function from
  hub state to hub state. What a handler does to the outside (socket emits, timers,
  close and construction of peer connections, the warnings the claims speak of) is
  appended to the field \<open>trace\<close>, oldest first.

  Outcomes decided by the vendor runtime (whether an awaited call resolves or
  rejects) are explicit boolean arguments of the handler that awaits them.
\<close>

subsection \<open>Data\<close>

type_synonym client_id = string
type_synonym track_id = string
type_synonym candidate = string
type_synonym pc_ref = nat
type_synonym media_stream = "track_id list"

datatype kind = Video | Audio

text \<open>\<^verbatim>\<open>track.readyState\<close>: the source compares it with \<^verbatim>\<open>'live'\<close> and \<^verbatim>\<open>'ended'\<close>
  and treats every other value alike; \<open>PendingLive\<close> stands for every other value.\<close>

datatype readyState = Live | Ended | PendingLive

text \<open>The two closures the source assigns to \<^verbatim>\<open>track.onended\<close>: the one of the
  \<^verbatim>\<open>ontrack\<close> handler (clears the stream) and the one of \<^verbatim>\<open>processLiveTrack\<close> (looks
  for a replacement); the latter carries the cell of its \<^verbatim>\<open>currentTrack\<close> variable.\<close>

datatype ended_handler = ClearStream | FindReplacement nat

record track =
  kind :: kind
  readyState :: readyState
  onended :: "ended_handler option"

datatype role = Producer | Consumer

datatype connectionState = New | Connecting | Connected | Disconnected | Failed | Closed

text \<open>An \<^verbatim>\<open>RTCPeerConnection\<close> object. \<open>role\<close> and \<open>owner\<close> record which handler
  constructed it and the client captured by its callbacks; \<open>addedCandidates\<close> are the
  candidates \<^verbatim>\<open>addIceCandidate\<close> accepted, oldest first; \<open>senders\<close> are the tracks
  bound with \<^verbatim>\<open>addTrack\<close>; \<open>receivers\<close> are the non-null tracks of \<^verbatim>\<open>getReceivers()\<close>.\<close>

record peer =
  role :: role
  owner :: client_id
  isClosed :: bool
  remoteDescription :: bool
  localDescription :: bool
  connectionState :: connectionState
  receivers :: "track_id list"
  senders :: "track_id list"
  addedCandidates :: "candidate list"

datatype message = StartWebrtc | WebrtcAnswer | WebrtcOffer

text \<open>The callbacks handed to \<^verbatim>\<open>setTimeout\<close> and \<^verbatim>\<open>setInterval\<close>.\<close>

datatype task =
    CreateReceiver client_id
  | CheckTrackState track_id "media_stream list" client_id
  | WaitTrackLive track_id "media_stream list" client_id
  | MonitorTrack nat
  | SearchLive nat
  | WaitReceiverLive pc_ref

datatype notice =
    WrtcNotLoaded
  | TrackNotLiveYet track_id
  | TrackEndedOrTimeout track_id
  | NoPeerConnectionForCandidate client_id
  | CandidateFailed client_id
  | NoReceiverForAnswer client_id
  | AnswerFailed client_id
  | ClientNotFound client_id
  | NoLiveTrackInStream client_id
  | NoStreamToSend client_id
  | ReceiverFailed client_id
  | ReceiverTrackTimeout client_id
  | OfferFailed client_id
  | MonitorStopped
  | NoLiveTrackFound
  | SearchTimedOut

datatype effect =
    Emit client_id message
  | SocketDisconnect client_id
  | PcCreated role pc_ref
  | PcClosed pc_ref
  | CandidateAdded pc_ref candidate
  | SetTimeout task nat
  | SetInterval task nat
  | ClearInterval task
  | Notice notice

text \<open>The fields of \<^verbatim>\<open>SignalingGateway\<close>, then the stores. \<open>wrtc\<close> says whether the
  module-level \<^verbatim>\<open>wrtc\<close> was loaded with its constructors. \<open>connections\<close> keeps the
  insertion order of the \<^verbatim>\<open>Map\<close>, which \<^verbatim>\<open>forEach\<close> follows. \<open>pcs\<close> holds every peer
  connection ever constructed, a reference being its position. \<open>currentTrack\<close> holds
  one cell per call of \<^verbatim>\<open>processLiveTrack\<close>: the closure variable of that name.\<close>

record hub =
  wrtc :: bool
  connections :: "client_id list"
  senderPeerConnection :: "pc_ref option"
  senderClientId :: "client_id option"
  receiverPeerConnections :: "client_id \<rightharpoonup> pc_ref"
  receivedStream :: "media_stream option"
  pcs :: "peer list"
  tracks :: "track_id \<Rightarrow> track"
  currentTrack :: "track_id list"
  trace :: "effect list"

definition initial :: "bool \<Rightarrow> (track_id \<Rightarrow> track) \<Rightarrow> hub" where
  "initial w ts =
     \<lparr>wrtc = w, connections = [], senderPeerConnection = None, senderClientId = None,
      receiverPeerConnections = Map.empty, receivedStream = None, pcs = [],
      tracks = ts, currentTrack = [], trace = []\<rparr>"

subsection \<open>Vendor operations on the store\<close>

definition emit :: "effect list \<Rightarrow> hub \<Rightarrow> hub" where
  "emit es s = s\<lparr>trace := trace s @ es\<rparr>"

definition newPeer :: "role \<Rightarrow> client_id \<Rightarrow> peer" where
  "newPeer r c =
     \<lparr>role = r, owner = c, isClosed = False, remoteDescription = False,
      localDescription = False, connectionState = New, receivers = [], senders = [],
      addedCandidates = []\<rparr>"

text \<open>\<^verbatim>\<open>new RTCPeerConnection(...)\<close>: the new object gets the next free reference.\<close>

definition construct :: "role \<Rightarrow> client_id \<Rightarrow> hub \<Rightarrow> hub" where
  "construct r c s =
     s\<lparr>pcs := pcs s @ [newPeer r c], trace := trace s @ [PcCreated r (length (pcs s))]\<rparr>"

text \<open>\<^verbatim>\<open>pc.close()\<close>.\<close>

definition close :: "pc_ref \<Rightarrow> hub \<Rightarrow> hub" where
  "close p s =
     s\<lparr>pcs := (pcs s)[p := (pcs s ! p)\<lparr>isClosed := True, connectionState := Closed\<rparr>],
       trace := trace s @ [PcClosed p]\<rparr>"

definition setRemoteDescription :: "pc_ref \<Rightarrow> hub \<Rightarrow> hub" where
  "setRemoteDescription p s = s\<lparr>pcs := (pcs s)[p := (pcs s ! p)\<lparr>remoteDescription := True\<rparr>]\<rparr>"

definition setLocalDescription :: "pc_ref \<Rightarrow> hub \<Rightarrow> hub" where
  "setLocalDescription p s = s\<lparr>pcs := (pcs s)[p := (pcs s ! p)\<lparr>localDescription := True\<rparr>]\<rparr>"

definition addIceCandidate :: "pc_ref \<Rightarrow> candidate \<Rightarrow> hub \<Rightarrow> hub" where
  "addIceCandidate p cand s =
     s\<lparr>pcs := (pcs s)[p := (pcs s ! p)\<lparr>addedCandidates := addedCandidates (pcs s ! p) @ [cand]\<rparr>],
       trace := trace s @ [CandidateAdded p cand]\<rparr>"

definition addTracks :: "pc_ref \<Rightarrow> track_id list \<Rightarrow> hub \<Rightarrow> hub" where
  "addTracks p ts s = s\<lparr>pcs := (pcs s)[p := (pcs s ! p)\<lparr>senders := senders (pcs s ! p) @ ts\<rparr>]\<rparr>"

definition isLive :: "hub \<Rightarrow> track_id \<Rightarrow> bool" where
  "isLive s t = (readyState (tracks s t) = Live)"

text \<open>\<^verbatim>\<open>getReceivers().map(r => r.track).filter(t => t && t.kind === 'video')
  .filter(t => t.readyState === 'live')\<close>.\<close>

definition liveVideoTracks :: "hub \<Rightarrow> pc_ref \<Rightarrow> track_id list" where
  "liveVideoTracks s p =
     filter (isLive s) (filter (\<lambda>t. kind (tracks s t) = Video) (receivers (pcs s ! p)))"

subsection \<open>Consumer sessions: \<^verbatim>\<open>createReceiverConnection\<close>\<close>

text \<open>
  \<^verbatim>\<open>createReceiverConnection(clientId)\<close>. The function is \<^verbatim>\<open>async\<close>; everything up to
  \<^verbatim>\<open>receiverPeerConnections.set\<close> runs before its first \<^verbatim>\<open>await\<close>, and what follows the
  awaits touches only the new connection and the client's socket, so the call is one
  transition. \<open>ok\<close> says whether the awaited \<^verbatim>\<open>createOffer\<close> and \<^verbatim>\<open>setLocalDescription\<close>
  resolve; when they reject, the \<^verbatim>\<open>catch\<close> block only logs. The constructor and
  \<^verbatim>\<open>addTrack\<close> on the fresh connection are taken not to throw.
\<close>

definition createReceiverConnection :: "client_id \<Rightarrow> bool \<Rightarrow> hub \<Rightarrow> hub" where
  "createReceiverConnection clientId ok s =
     (if wrtc s then
        if clientId \<in> set (connections s) then
          let s1 = (case receiverPeerConnections s clientId of
                      Some existingPC \<Rightarrow> close existingPC s
                    | None \<Rightarrow> s);
              receiverPC = length (pcs s1);
              s2 = construct Consumer clientId s1;
              s3 = (case receivedStream s2 of
                      Some ts \<Rightarrow>
                        let liveTracks = filter (isLive s2) ts in
                        if liveTracks = [] then
                          emit [Notice (NoLiveTrackInStream clientId),
                                SetInterval (WaitReceiverLive receiverPC) 100] s2
                        else addTracks receiverPC (filter (isLive s2) liveTracks) s2
                    | None \<Rightarrow> emit [Notice (NoStreamToSend clientId)] s2);
              s4 = s3\<lparr>receiverPeerConnections :=
                         (receiverPeerConnections s3)(clientId \<mapsto> receiverPC)\<rparr>
          in if ok then emit [Emit clientId WebrtcOffer] (setLocalDescription receiverPC s4)
             else emit [Notice (ReceiverFailed clientId)] s4
        else emit [Notice (ClientNotFound clientId)] s
      else emit [Notice WrtcNotLoaded] s)"

text \<open>One firing of the interval \<^verbatim>\<open>createReceiverConnection\<close> starts when the stream has
  no live track. \<open>checkCount\<close> is the counter before the firing; the second component
  says whether the interval is still running afterwards.\<close>

definition waitReceiverLive :: "pc_ref \<Rightarrow> nat \<Rightarrow> hub \<Rightarrow> hub \<times> bool" where
  "waitReceiverLive receiverPC checkCount s =
     (let currentTracks = (case receivedStream s of Some ts \<Rightarrow> ts | None \<Rightarrow> []);
          currentLiveTracks = filter (isLive s) currentTracks
      in if currentLiveTracks = [] then
           if list_all (\<lambda>t. readyState (tracks s t) = Ended) currentTracks
              \<or> 100 \<le> checkCount + 1
           then (emit [Notice (ReceiverTrackTimeout (owner (pcs s ! receiverPC))),
                       ClearInterval (WaitReceiverLive receiverPC)] s, False)
           else (s, True)
         else (emit [ClearInterval (WaitReceiverLive receiverPC)]
                 (addTracks receiverPC currentLiveTracks s), False))"

subsection \<open>The liveness monitor: \<^verbatim>\<open>monitorTrack\<close> and its \<^verbatim>\<open>checkInterval\<close>\<close>

text \<open>\<^verbatim>\<open>liveTracks.find(t => t.id !== currentTrack.id) || liveTracks[0]\<close>, called with a
  non-empty list only.\<close>

definition pickReplacement :: "track_id \<Rightarrow> track_id list \<Rightarrow> track_id" where
  "pickReplacement cur liveTracks =
     (case find (\<lambda>t. t \<noteq> cur) liveTracks of Some t \<Rightarrow> t | None \<Rightarrow> hd liveTracks)"

definition promote :: "nat \<Rightarrow> track_id \<Rightarrow> hub \<Rightarrow> hub" where
  "promote m t s = s\<lparr>currentTrack := (currentTrack s)[m := t], receivedStream := Some [t]\<rparr>"

text \<open>One run of the closure \<^verbatim>\<open>monitorTrack\<close> whose \<^verbatim>\<open>currentTrack\<close> is cell \<open>m\<close>.\<close>

definition monitorTrack :: "nat \<Rightarrow> hub \<Rightarrow> hub" where
  "monitorTrack m s =
     (case senderPeerConnection s of
        None \<Rightarrow> emit [Notice MonitorStopped] s
      | Some p \<Rightarrow>
          let cur = currentTrack s ! m;
              currentTrackState = readyState (tracks s cur);
              liveTracks = liveVideoTracks s p
          in if currentTrackState = Live \<and> receivedStream s \<noteq> None then
               if readyState (tracks s cur) = Live then emit [SetTimeout (MonitorTrack m) 2000] s
               else if liveTracks = [] then emit [Notice NoLiveTrackFound] (s\<lparr>receivedStream := None\<rparr>)
               else emit [SetTimeout (MonitorTrack m) 2000]
                      (promote m (pickReplacement cur liveTracks) s)
             else if currentTrackState = Ended then
               if liveTracks = [] then
                 emit [Notice NoLiveTrackFound, SetInterval (SearchLive m) 200] s
               else emit [SetTimeout (MonitorTrack m) 2000]
                      (promote m (pickReplacement cur liveTracks) s)
             else emit [SetTimeout (MonitorTrack m) 1000] s)"

text \<open>One firing of \<^verbatim>\<open>checkInterval\<close> (the interval of the \<^verbatim>\<open>ended\<close> branch), with the
  counter before the firing; the second component says whether the interval is still
  running afterwards.\<close>

definition searchLive :: "nat \<Rightarrow> nat \<Rightarrow> hub \<Rightarrow> hub \<times> bool" where
  "searchLive m checkCount s =
     (case senderPeerConnection s of
        None \<Rightarrow> (emit [ClearInterval (SearchLive m)] s, False)
      | Some p \<Rightarrow>
          let currentLiveTracks = liveVideoTracks s p
          in if currentLiveTracks = [] then
               if 50 \<le> checkCount + 1 then
                 (emit [Notice SearchTimedOut, ClearInterval (SearchLive m)]
                    (s\<lparr>receivedStream := None\<rparr>), False)
               else (s, True)
             else (emit [ClearInterval (SearchLive m), SetTimeout (MonitorTrack m) 2000]
                     (promote m (hd currentLiveTracks) s), False))"

text \<open>The whole life of one such interval. Between two firings anything may happen
  to the hub: \<open>env k\<close> is what the other handlers and the vendor do to the state
  before firing number \<open>k + 1\<close>. The result is the state when the interval has been
  cleared and the value of \<^verbatim>\<open>checkCount\<close> then.\<close>

function checkInterval :: "(nat \<Rightarrow> hub \<Rightarrow> hub) \<Rightarrow> nat \<Rightarrow> nat \<Rightarrow> hub \<Rightarrow> hub \<times> nat" where
  "checkInterval env m checkCount s =
     (let fired = searchLive m checkCount (env checkCount s)
      in if snd fired then checkInterval env m (checkCount + 1) (fst fired)
         else (fst fired, checkCount + 1))"
  by pat_completeness auto
termination
proof (relation "measure (\<lambda>(env, m, checkCount, s). 50 - checkCount)")
  show "wf (measure (\<lambda>(env, m, checkCount, s). 50 - checkCount))"
    by simp
next
  fix env :: "nat \<Rightarrow> hub \<Rightarrow> hub" and m checkCount :: nat and s fired
  assume "fired = searchLive m checkCount (env checkCount s)" and "snd fired"
  then have "checkCount + 1 < 50"
    by (auto simp: searchLive_def Let_def split: option.splits if_splits)
  then show "((env, m, checkCount + 1, fst fired), (env, m, checkCount, s))
      \<in> measure (\<lambda>(env, m, checkCount, s). 50 - checkCount)"
    by simp
qed

declare checkInterval.simps [simp del]

text \<open>The \<^verbatim>\<open>onended\<close> closure installed on a track, run when the vendor fires the
  event.\<close>

definition trackEnded :: "track_id \<Rightarrow> hub \<Rightarrow> hub" where
  "trackEnded t s =
     (case onended (tracks s t) of
        None \<Rightarrow> s
      | Some ClearStream \<Rightarrow> s\<lparr>receivedStream := None\<rparr>
      | Some (FindReplacement m) \<Rightarrow>
          (case senderPeerConnection s of
             Some p \<Rightarrow>
               let liveTracks = liveVideoTracks s p
               in if liveTracks = [] then emit [Notice NoLiveTrackFound] (s\<lparr>receivedStream := None\<rparr>)
                  else promote m (hd liveTracks) s
           | None \<Rightarrow> s\<lparr>receivedStream := None\<rparr>))"

subsection \<open>Producer tracks: \<^verbatim>\<open>processLiveTrack\<close>, \<^verbatim>\<open>handleTrackReceived\<close>, \<^verbatim>\<open>ontrack\<close>\<close>

text \<open>\<^verbatim>\<open>processLiveTrack(track, streams, senderClientId)\<close>; a \<^verbatim>\<open>null\<close> or empty \<^verbatim>\<open>streams\<close>
  is the empty list. \<open>ok\<close> is handed to every \<^verbatim>\<open>createReceiverConnection\<close> it starts.\<close>

definition processLiveTrack ::
  "track_id \<Rightarrow> media_stream list \<Rightarrow> client_id \<Rightarrow> bool \<Rightarrow> hub \<Rightarrow> hub" where
  "processLiveTrack t streams sender ok s =
     (let s1 = s\<lparr>receivedStream := Some (case streams of [] \<Rightarrow> [t] | st # _ \<Rightarrow> st)\<rparr>;
          m = length (currentTrack s1);
          s2 = s1\<lparr>currentTrack := currentTrack s1 @ [t],
                  tracks := (tracks s1)(t := (tracks s1 t)\<lparr>onended := Some (FindReplacement m)\<rparr>)\<rparr>;
          s3 = monitorTrack m s2
      in fold (\<lambda>clientId s'.
                 if receiverPeerConnections s' clientId = None \<and> clientId \<noteq> sender
                 then createReceiverConnection clientId ok s' else s')
           (connections s3) s3)"

definition handleTrackReceived ::
  "track_id \<Rightarrow> media_stream list \<Rightarrow> client_id \<Rightarrow> bool \<Rightarrow> hub \<Rightarrow> hub" where
  "handleTrackReceived t streams sender ok s =
     (if readyState (tracks s t) = Live then processLiveTrack t streams sender ok s
      else emit [Notice (TrackNotLiveYet t), SetInterval (WaitTrackLive t streams sender) 100] s)"

text \<open>One firing of the interval of \<^verbatim>\<open>handleTrackReceived\<close> (bound 100).\<close>

definition waitTrackLive ::
  "track_id \<Rightarrow> media_stream list \<Rightarrow> client_id \<Rightarrow> nat \<Rightarrow> bool \<Rightarrow> hub \<Rightarrow> hub \<times> bool" where
  "waitTrackLive t streams sender checkCount ok s =
     (if readyState (tracks s t) = Live then
        (processLiveTrack t streams sender ok
           (emit [ClearInterval (WaitTrackLive t streams sender)] s), False)
      else if readyState (tracks s t) = Ended \<or> 100 \<le> checkCount + 1 then
        (emit [ClearInterval (WaitTrackLive t streams sender), Notice (TrackEndedOrTimeout t)] s,
         False)
      else (s, True))"

text \<open>The \<^verbatim>\<open>ontrack\<close> callback of the producer connection \<open>p\<close>; the client it captured
  is the connection's \<open>owner\<close>.\<close>

definition ontrack :: "pc_ref \<Rightarrow> track_id \<Rightarrow> media_stream list \<Rightarrow> bool \<Rightarrow> hub \<Rightarrow> hub" where
  "ontrack p t streams ok s =
     (if readyState (tracks s t) = Live then
        handleTrackReceived t streams (owner (pcs s ! p)) ok s
      else emit [Notice (TrackNotLiveYet t),
                 SetInterval (CheckTrackState t streams (owner (pcs s ! p))) 100]
             (s\<lparr>tracks := (tracks s)(t := (tracks s t)\<lparr>onended := Some ClearStream\<rparr>)\<rparr>))"

text \<open>One firing of the interval of \<^verbatim>\<open>ontrack\<close> (bound 50): \<^verbatim>\<open>checkTrackState()\<close>, then
  the test that clears the interval.\<close>

definition checkTrackState ::
  "track_id \<Rightarrow> media_stream list \<Rightarrow> client_id \<Rightarrow> nat \<Rightarrow> bool \<Rightarrow> hub \<Rightarrow> hub \<times> bool" where
  "checkTrackState t streams sender checkCount ok s =
     (let s1 = (if readyState (tracks s t) = Live then handleTrackReceived t streams sender ok s
                else if readyState (tracks s t) = Ended then emit [Notice (TrackEndedOrTimeout t)] s
                else s)
      in if readyState (tracks s t) = Live \<or> readyState (tracks s t) = Ended
            \<or> 50 \<le> checkCount + 1
         then (emit [ClearInterval (CheckTrackState t streams sender)] s1, False)
         else (s1, True))"

subsection \<open>Socket handlers\<close>

definition handleConnectionAccept :: "client_id \<Rightarrow> hub \<Rightarrow> hub" where
  "handleConnectionAccept c s = emit [Emit c StartWebrtc] s"

definition handleConnectionReject :: "client_id \<Rightarrow> hub \<Rightarrow> hub" where
  "handleConnectionReject c s = emit [SocketDisconnect c] s"

definition handleConnection :: "client_id \<Rightarrow> hub \<Rightarrow> hub" where
  "handleConnection c s =
     (let s1 = s\<lparr>connections :=
                   (if c \<in> set (connections s) then connections s else connections s @ [c])\<rparr>;
          s2 = handleConnectionAccept c s1
      in if receivedStream s2 = None then s2
         else emit [SetTimeout (CreateReceiver c) 500] s2)"

definition handleDisconnect :: "client_id \<Rightarrow> hub \<Rightarrow> hub" where
  "handleDisconnect c s =
     (let s1 = s\<lparr>connections := removeAll c (connections s)\<rparr>;
          s2 = (case senderPeerConnection s1 of
                  Some p \<Rightarrow>
                    if senderClientId s1 = Some c then
                      (close p s1)\<lparr>senderPeerConnection := None, senderClientId := None,
                                   receivedStream := None\<rparr>
                    else s1
                | None \<Rightarrow> s1)
      in case receiverPeerConnections s2 c of
           Some receiverPC \<Rightarrow>
             (close receiverPC s2)\<lparr>receiverPeerConnections := (receiverPeerConnections s2)(c := None)\<rparr>
         | None \<Rightarrow> s2)"

text \<open>\<^verbatim>\<open>handleOffer\<close> up to its first \<^verbatim>\<open>await\<close>: the old producer connection is closed,
  the new one constructed and its callbacks installed, \<^verbatim>\<open>setRemoteDescription\<close> is
  called on it.\<close>

definition handleOffer :: "client_id \<Rightarrow> hub \<Rightarrow> hub" where
  "handleOffer c s =
     (if wrtc s then
        let s1 = (case senderPeerConnection s of
                    Some p \<Rightarrow> (close p s)\<lparr>senderPeerConnection := None, senderClientId := None\<rparr>
                  | None \<Rightarrow> s);
            s2 = s1\<lparr>senderClientId := Some c\<rparr>
        in (construct Producer c s2)\<lparr>senderPeerConnection := Some (length (pcs s2))\<rparr>
      else emit [Notice WrtcNotLoaded] s)"

text \<open>How the awaited negotiation of \<^verbatim>\<open>handleOffer\<close> ends: \<^verbatim>\<open>setRemoteDescription\<close>
  rejects, or it resolves and \<^verbatim>\<open>createAnswer\<close> or \<^verbatim>\<open>setLocalDescription\<close> rejects, or
  all three resolve.\<close>

datatype negotiation = RemoteRejected | AnswerRejected | Negotiated

text \<open>\<^verbatim>\<open>handleOffer\<close> after its awaits, taken as one suspension: \<open>p\<close> is the connection
  \<^verbatim>\<open>setRemoteDescription\<close> was called on; every later line reads
  \<^verbatim>\<open>this.senderPeerConnection\<close> again, and a \<^verbatim>\<open>null\<close> there throws into the \<^verbatim>\<open>catch\<close>
  block, which only logs.\<close>

definition handleOfferResumed :: "client_id \<Rightarrow> pc_ref \<Rightarrow> negotiation \<Rightarrow> bool \<Rightarrow> hub \<Rightarrow> hub" where
  "handleOfferResumed c p outcome ok s =
     (case outcome of
        RemoteRejected \<Rightarrow> emit [Notice (OfferFailed c)] s
      | AnswerRejected \<Rightarrow> emit [Notice (OfferFailed c)] (setRemoteDescription p s)
      | Negotiated \<Rightarrow>
          let s1 = setRemoteDescription p s
          in case senderPeerConnection s1 of
               None \<Rightarrow> emit [Notice (OfferFailed c)] s1
             | Some q \<Rightarrow>
                 let s2 = setLocalDescription q s1;
                     liveTracksAfterAnswer = liveVideoTracks s2 q;
                     s3 = (if liveTracksAfterAnswer = [] then s2
                           else handleTrackReceived (hd liveTracksAfterAnswer) [] c ok s2)
                 in emit [Emit c WebrtcAnswer] s3)"

definition handleAnswer :: "client_id \<Rightarrow> bool \<Rightarrow> hub \<Rightarrow> hub" where
  "handleAnswer c ok s =
     (case receiverPeerConnections s c of
        Some receiverPC \<Rightarrow>
          if wrtc s then
            if ok then setRemoteDescription receiverPC s else emit [Notice (AnswerFailed c)] s
          else emit [Notice WrtcNotLoaded] s
      | None \<Rightarrow> emit [Notice (NoReceiverForAnswer c)] s)"

text \<open>\<^verbatim>\<open>await pc.addIceCandidate(...)\<close> inside the \<^verbatim>\<open>try\<close>: \<open>ok\<close> says whether it
  resolves.\<close>

definition tryAddIceCandidate :: "pc_ref \<Rightarrow> candidate \<Rightarrow> bool \<Rightarrow> client_id \<Rightarrow> hub \<Rightarrow> hub" where
  "tryAddIceCandidate p cand ok c s =
     (if ok then addIceCandidate p cand s else emit [Notice (CandidateFailed c)] s)"

definition handleIceCandidate :: "client_id \<Rightarrow> candidate \<Rightarrow> bool \<Rightarrow> hub \<Rightarrow> hub" where
  "handleIceCandidate c cand ok s =
     (if wrtc s then
        let fromReceiver =
              (case receiverPeerConnections s c of
                 Some receiverPC \<Rightarrow>
                   if remoteDescription (pcs s ! receiverPC)
                   then tryAddIceCandidate receiverPC cand ok c s
                   else emit [Notice (NoPeerConnectionForCandidate c)] s
               | None \<Rightarrow> emit [Notice (NoPeerConnectionForCandidate c)] s)
        in case senderPeerConnection s of
             Some p \<Rightarrow>
               if remoteDescription (pcs s ! p) then tryAddIceCandidate p cand ok c s
               else fromReceiver
           | None \<Rightarrow> fromReceiver
      else emit [Notice WrtcNotLoaded] s)"

text \<open>\<^verbatim>\<open>onconnectionstatechange\<close> of connection \<open>p\<close>, after the vendor has moved it to
  state \<open>st\<close>. The producer's callback reads the state of whatever
  \<^verbatim>\<open>this.senderPeerConnection\<close> is now; the consumer's reads its own.\<close>

definition onconnectionstatechange :: "pc_ref \<Rightarrow> connectionState \<Rightarrow> hub \<Rightarrow> hub" where
  "onconnectionstatechange p st s =
     (let s1 = s\<lparr>pcs := (pcs s)[p := (pcs s ! p)\<lparr>connectionState := st\<rparr>]\<rparr>
      in case role (pcs s1 ! p) of
           Producer \<Rightarrow>
             (case senderPeerConnection s1 of
                Some q \<Rightarrow>
                  if connectionState (pcs s1 ! q) = Disconnected
                     \<or> connectionState (pcs s1 ! q) = Failed
                  then s1\<lparr>receivedStream := None\<rparr> else s1
              | None \<Rightarrow> s1)
         | Consumer \<Rightarrow>
             if st = Disconnected \<or> st = Failed
             then s1\<lparr>receiverPeerConnections :=
                       (receiverPeerConnections s1)(owner (pcs s1 ! p) := None)\<rparr>
             else s1)"

subsection \<open>Executions of the hub\<close>

text \<open>Everything that can make the hub run: a socket message or lifecycle callback,
  the continuation of a suspended \<^verbatim>\<open>handleOffer\<close>, a vendor callback, a timer firing
  (with the current value of its counter), and the vendor changing what the hub
  observes (a track's \<^verbatim>\<open>readyState\<close>, a connection's receivers). Vendor callbacks and
  timers are accepted for every connection that exists, whether or not the callback
  was scheduled: the executions of the code are among the runs of this machine.\<close>

datatype event =
    ClientConnected client_id
  | ClientDisconnected client_id
  | ConnectionAccept client_id
  | ConnectionReject client_id
  | OfferReceived client_id
  | OfferResumed client_id pc_ref negotiation bool
  | AnswerReceived client_id bool
  | CandidateReceived client_id candidate bool
  | TrackDelivered pc_ref track_id "media_stream list" bool
  | TrackEndedFired track_id
  | ConnectionStateChanged pc_ref connectionState
  | TimerFired task nat bool
  | ReadyStateChanged track_id readyState
  | ReceiversChanged pc_ref "track_id list"

fun fire :: "task \<Rightarrow> nat \<Rightarrow> bool \<Rightarrow> hub \<Rightarrow> hub" where
  "fire (CreateReceiver c) n ok s = createReceiverConnection c ok s"
| "fire (CheckTrackState t streams c) n ok s = fst (checkTrackState t streams c n ok s)"
| "fire (WaitTrackLive t streams c) n ok s = fst (waitTrackLive t streams c n ok s)"
| "fire (MonitorTrack m) n ok s = (if m < length (currentTrack s) then monitorTrack m s else s)"
| "fire (SearchLive m) n ok s = (if m < length (currentTrack s) then fst (searchLive m n s) else s)"
| "fire (WaitReceiverLive p) n ok s =
     (if p < length (pcs s) then fst (waitReceiverLive p n s) else s)"

fun step :: "event \<Rightarrow> hub \<Rightarrow> hub" where
  "step (ClientConnected c) s = handleConnection c s"
| "step (ClientDisconnected c) s = handleDisconnect c s"
| "step (ConnectionAccept c) s = handleConnectionAccept c s"
| "step (ConnectionReject c) s = handleConnectionReject c s"
| "step (OfferReceived c) s = handleOffer c s"
| "step (OfferResumed c p outcome ok) s =
     (if p < length (pcs s) then handleOfferResumed c p outcome ok s else s)"
| "step (AnswerReceived c ok) s = handleAnswer c ok s"
| "step (CandidateReceived c cand ok) s = handleIceCandidate c cand ok s"
| "step (TrackDelivered p t streams ok) s =
     (if p < length (pcs s) then
        if role (pcs s ! p) = Producer then ontrack p t streams ok s else s
      else s)"
| "step (TrackEndedFired t) s = trackEnded t s"
| "step (ConnectionStateChanged p st) s =
     (if p < length (pcs s) then onconnectionstatechange p st s else s)"
| "step (TimerFired k n ok) s = fire k n ok s"
| "step (ReadyStateChanged t st) s = s\<lparr>tracks := (tracks s)(t := (tracks s t)\<lparr>readyState := st\<rparr>)\<rparr>"
| "step (ReceiversChanged p ts) s =
     (if p < length (pcs s) then s\<lparr>pcs := (pcs s)[p := (pcs s ! p)\<lparr>receivers := ts\<rparr>]\<rparr> else s)"

fun run :: "event list \<Rightarrow> hub \<Rightarrow> hub" where
  "run [] s = s"
| "run (e # es) s = run es (step e s)"

subsection \<open>The producer page (ScreenShare.tsx): the candidate queue\<close>

datatype signalingState = Stable | HaveLocalOffer | HaveRemoteOffer | SignalingClosed

text \<open>The page's \<^verbatim>\<open>RTCPeerConnection\<close>. \<open>attempted\<close> lists every candidate handed to
  \<^verbatim>\<open>addIceCandidate\<close>, in call order; \<open>applied\<close> lists those for which the call
  resolved.\<close>

record page_pc =
  signalingState :: signalingState
  hasRemoteDescription :: bool
  attempted :: "candidate list"
  applied :: "candidate list"

text \<open>\<^verbatim>\<open>peerConnectionRef.current\<close> and \<^verbatim>\<open>iceCandidateQueueRef.current\<close>.\<close>

record page =
  peerConnectionRef :: "page_pc option"
  iceCandidateQueueRef :: "candidate list"

text \<open>\<^verbatim>\<open>await pc.addIceCandidate(new RTCIceCandidate(c))\<close>; \<open>acc\<close> is the vendor's
  verdict on each candidate (the call resolves or rejects).\<close>

definition pageAddIceCandidate :: "(candidate \<Rightarrow> bool) \<Rightarrow> candidate \<Rightarrow> page_pc \<Rightarrow> page_pc" where
  "pageAddIceCandidate acc c pc =
     pc\<lparr>attempted := attempted pc @ [c],
        applied := (if acc c then applied pc @ [c] else applied pc)\<rparr>"

text \<open>The page's \<^verbatim>\<open>handleAnswer\<close> up to the timeout it sets; \<open>ok\<close> says whether
  \<^verbatim>\<open>setRemoteDescription\<close> resolves.\<close>

definition pageHandleAnswer :: "bool \<Rightarrow> page \<Rightarrow> page" where
  "pageHandleAnswer ok s =
     (case peerConnectionRef s of
        None \<Rightarrow> s
      | Some pc \<Rightarrow>
          if signalingState pc = SignalingClosed then s
          else if signalingState pc = HaveLocalOffer then
            if ok then
              s\<lparr>peerConnectionRef := Some (pc\<lparr>hasRemoteDescription := True, signalingState := Stable\<rparr>)\<rparr>
            else s
          else s)"

text \<open>The page's \<^verbatim>\<open>handleIceCandidate\<close>.\<close>

definition pageHandleIceCandidate :: "(candidate \<Rightarrow> bool) \<Rightarrow> candidate \<Rightarrow> page \<Rightarrow> page" where
  "pageHandleIceCandidate acc c s =
     (case peerConnectionRef s of
        None \<Rightarrow> s
      | Some pc \<Rightarrow>
          if signalingState pc = SignalingClosed then s
          else if hasRemoteDescription pc then
            s\<lparr>peerConnectionRef := Some (pageAddIceCandidate acc c pc),
              iceCandidateQueueRef :=
                (if acc c then iceCandidateQueueRef s else iceCandidateQueueRef s @ [c])\<rparr>
          else s\<lparr>iceCandidateQueueRef := iceCandidateQueueRef s @ [c]\<rparr>)"

text \<open>Candidates arriving one after the other, each handled by
  \<^verbatim>\<open>handleIceCandidate\<close>.\<close>

fun receiveAll :: "(candidate \<Rightarrow> bool) \<Rightarrow> candidate list \<Rightarrow> page \<Rightarrow> page" where
  "receiveAll acc [] s = s"
| "receiveAll acc (c # cs) s = receiveAll acc cs (pageHandleIceCandidate acc c s)"

text \<open>The \<^verbatim>\<open>for (const candidateData of candidates)\<close> loop with its \<^verbatim>\<open>try\<close>/\<^verbatim>\<open>catch\<close>
  and its awaits. Each round hands the next copied candidate to \<^verbatim>\<open>addIceCandidate\<close>
  and suspends; a rejected call is counted and the loop goes on. While round \<open>k\<close>
  is suspended other handlers run: \<open>arrivals k\<close> are the candidates that arrive
  then, each handled by \<^verbatim>\<open>handleIceCandidate\<close>. The connection the loop works on
  is the one the ref holds.\<close>

fun applyQueued ::
  "(candidate \<Rightarrow> bool) \<Rightarrow> (nat \<Rightarrow> candidate list) \<Rightarrow> nat \<Rightarrow> candidate list \<Rightarrow> page \<Rightarrow> page" where
  "applyQueued acc arrivals k [] s = s"
| "applyQueued acc arrivals k (c # cs) s =
     applyQueued acc arrivals (k + 1) cs
       (receiveAll acc (arrivals k)
          (s\<lparr>peerConnectionRef := map_option (pageAddIceCandidate acc c) (peerConnectionRef s)\<rparr>))"

text \<open>\<^verbatim>\<open>processIceCandidateQueue(pc)\<close>, called by the timeout of \<^verbatim>\<open>handleAnswer\<close> with
  the connection the answer was applied to, which the ref still holds: the queue is
  copied and emptied before the loop starts.\<close>

definition processIceCandidateQueue ::
  "(candidate \<Rightarrow> bool) \<Rightarrow> (nat \<Rightarrow> candidate list) \<Rightarrow> page \<Rightarrow> page" where
  "processIceCandidateQueue acc arrivals s =
     (case peerConnectionRef s of
        None \<Rightarrow> s
      | Some pc \<Rightarrow>
          if iceCandidateQueueRef s = [] then s
          else if hasRemoteDescription pc then
            applyQueued acc arrivals 0 (iceCandidateQueueRef s) (s\<lparr>iceCandidateQueueRef := []\<rparr>)
          else s)"

text \<open>What a flush of the queued candidates \<open>cs\<close> hands to \<^verbatim>\<open>addIceCandidate\<close>
  overall, from round \<open>k\<close> on: each queued candidate, followed by the candidates
  that arrived while its call was awaited; and those arrivals alone.\<close>

fun woven :: "candidate list \<Rightarrow> (nat \<Rightarrow> candidate list) \<Rightarrow> nat \<Rightarrow> candidate list" where
  "woven [] arrivals k = []"
| "woven (c # cs) arrivals k = c # arrivals k @ woven cs arrivals (k + 1)"

fun arrived :: "nat \<Rightarrow> (nat \<Rightarrow> candidate list) \<Rightarrow> nat \<Rightarrow> candidate list" where
  "arrived 0 arrivals k = []"
| "arrived (Suc n) arrivals k = arrivals k @ arrived n arrivals (k + 1)"

subsection \<open>What the invariants speak about\<close>

text \<open>The producer connections that are open, by reference.\<close>

definition openProducers :: "hub \<Rightarrow> pc_ref list" where
  "openProducers s =
     filter (\<lambda>p. role (pcs s ! p) = Producer \<and> isClosed (pcs s ! p) = False)
       [0..<length (pcs s)]"

text \<open>The part of a peer connection no handler changes except by closing it, and the
  invariant that ties the two registries of the hub to the store: the producer
  reference points to an open producer connection; every open producer connection is
  the one referenced; a client's entry in the consumer map points to an open consumer
  connection constructed for that client.\<close>

type_synonym ident = "role \<times> client_id \<times> bool"

definition ident :: "peer \<Rightarrow> ident" where
  "ident pc = (role pc, owner pc, isClosed pc)"

definition closeIdent :: "ident \<Rightarrow> ident" where
  "closeIdent i = (fst i, fst (snd i), True)"

definition idents :: "hub \<Rightarrow> ident list" where
  "idents s = map ident (pcs s)"

definition shape_inv :: "ident list \<Rightarrow> pc_ref option \<Rightarrow> (client_id \<rightharpoonup> pc_ref) \<Rightarrow> bool" where
  "shape_inv ids sp rp \<longleftrightarrow>
     (\<forall>p. sp = Some p \<longrightarrow> p < length ids \<and> fst (ids ! p) = Producer \<and> \<not> snd (snd (ids ! p)))
   \<and> (\<forall>p. p < length ids \<and> fst (ids ! p) = Producer \<and> \<not> snd (snd (ids ! p)) \<longrightarrow> sp = Some p)
   \<and> (\<forall>c q. rp c = Some q \<longrightarrow> q < length ids \<and> ids ! q = (Consumer, c, False))"

definition hub_inv :: "hub \<Rightarrow> bool" where
  "hub_inv s = shape_inv (idents s) (senderPeerConnection s) (receiverPeerConnections s)"

text \<open>The track and the streams an event hands to the hub, if it hands over any: the
  vendor's \<^verbatim>\<open>ontrack\<close> event and the two polls that wait for that track.\<close>

fun delivers :: "event \<Rightarrow> (track_id \<times> media_stream list) option" where
  "delivers (TrackDelivered p t streams ok) = Some (t, streams)"
| "delivers (TimerFired (CheckTrackState t streams c) n ok) = Some (t, streams)"
| "delivers (TimerFired (WaitTrackLive t streams c) n ok) = Some (t, streams)"
| "delivers e = None"

text \<open>How the received stream \<open>r\<close> after a handler relates to the state \<open>s\<close> before
  it: unchanged, cleared, or set from a track that is live in \<open>s\<close> (to that track
  alone, or to the first stream the vendor delivered with it).\<close>

definition set_from_live ::
  "hub \<Rightarrow> (track_id \<times> media_stream list) option \<Rightarrow> media_stream option \<Rightarrow> bool" where
  "set_from_live s d r \<longleftrightarrow>
     r = receivedStream s \<or> r = None
     \<or> (\<exists>t. readyState (tracks s t) = Live
            \<and> (r = Some [t]
                \<or> (\<exists>streams. d = Some (t, streams) \<and> streams \<noteq> [] \<and> r = Some (hd streams))))"

text \<open>The tracks bound to each connection, by reference; and how the bindings \<open>new\<close>
  after a handler relate to the bindings \<open>old\<close> before it: no connection has gone, and
  every track bound to a connection was bound to it before or is live.\<close>

definition senderLists :: "hub \<Rightarrow> track_id list list" where
  "senderLists s = map senders (pcs s)"

definition bound_live ::
  "(track_id \<Rightarrow> bool) \<Rightarrow> track_id list list \<Rightarrow> track_id list list \<Rightarrow> bool" where
  "bound_live live old new \<longleftrightarrow>
     length old \<le> length new
     \<and> (\<forall>q t. q < length new \<and> t \<in> set (new ! q) \<longrightarrow>
           (q < length old \<and> t \<in> set (old ! q)) \<or> live t)"

subsection \<open>Concrete executions used to exercise the theorems\<close>

text \<open>The producer page with an offer sent, no answer yet and an empty queue.\<close>

definition page0 :: page where
  "page0 =
     \<lparr>peerConnectionRef =
        Some \<lparr>signalingState = HaveLocalOffer, hasRemoteDescription = False,
              attempted = [], applied = []\<rparr>,
      iceCandidateQueueRef = []\<rparr>"

text \<open>A vendor that rejects the candidate \<open>bad\<close> and accepts every other one; no
  candidate arrives during a flush; the candidate \<open>bad\<close> arrives while the first
  call of a flush is awaited.\<close>

definition rejectBad :: "candidate \<Rightarrow> bool" where
  "rejectBad c = (c \<noteq> ''bad'')"

definition quiet :: "nat \<Rightarrow> candidate list" where
  "quiet k = []"

definition lateBad :: "nat \<Rightarrow> candidate list" where
  "lateBad k = (if k = 0 then [''bad''] else [])"

text \<open>Every track a live video track with no handler installed; the hub with the
  vendor runtime loaded and nothing connected; and a session in full swing: producer
  \<open>P\<close> has negotiated and delivered the live track \<open>t1\<close>, consumer \<open>C\<close> has connected,
  got its connection when the settling timer fired, and answered. \<open>producing\<close> is
  the part of it before the consumer connects.\<close>

definition tracks0 :: "track_id \<Rightarrow> track" where
  "tracks0 = (\<lambda>t. \<lparr>kind = Video, readyState = Live, onended = None\<rparr>)"

definition hub0 :: hub where
  "hub0 = initial True tracks0"

definition producing :: "event list" where
  "producing =
     [ClientConnected ''P'', OfferReceived ''P'', OfferResumed ''P'' 0 Negotiated True,
      TrackDelivered 0 ''t1'' [] True]"

definition streaming :: "event list" where
  "streaming =
     [ClientConnected ''P'', OfferReceived ''P'', OfferResumed ''P'' 0 Negotiated True,
      TrackDelivered 0 ''t1'' [] True, ClientConnected ''C'',
      TimerFired (CreateReceiver ''C'') 0 True, AnswerReceived ''C'' True]"

text \<open>The consumer \<open>C\<close> of the running session sends an offer of its own and so
  becomes the producer while its consumer connection is still registered.\<close>

definition takeover :: "event list" where
  "takeover =
     [ClientConnected ''P'', OfferReceived ''P'', OfferResumed ''P'' 0 Negotiated True,
      TrackDelivered 0 ''t1'' [] True, ClientConnected ''C'',
      TimerFired (CreateReceiver ''C'') 0 True, AnswerReceived ''C'' True,
      OfferReceived ''C'']"

text \<open>A candidate of consumer \<open>C\<close> arrives in the running session.\<close>

definition consumerCandidate :: "event list" where
  "consumerCandidate =
     [ClientConnected ''P'', OfferReceived ''P'', OfferResumed ''P'' 0 Negotiated True,
      TrackDelivered 0 ''t1'' [] True, ClientConnected ''C'',
      TimerFired (CreateReceiver ''C'') 0 True, AnswerReceived ''C'' True,
      CandidateReceived ''C'' ''cand'' True]"

text \<open>The producer's first candidate arrives while \<^verbatim>\<open>handleOffer\<close> is still awaiting
  \<^verbatim>\<open>setRemoteDescription\<close>; then the negotiation completes.\<close>

definition earlyCandidate :: "event list" where
  "earlyCandidate =
     [ClientConnected ''P'', OfferReceived ''P'', CandidateReceived ''P'' ''cand'' True,
      OfferResumed ''P'' 0 Negotiated True]"

text \<open>The track of the running producer ends after consumer \<open>C\<close> has connected and
  before its settling timer fires; the track's \<^verbatim>\<open>ended\<close> event has not been delivered
  yet.\<close>

definition endedBeforeTimer :: "event list" where
  "endedBeforeTimer =
     [ClientConnected ''P'', OfferReceived ''P'', OfferResumed ''P'' 0 Negotiated True,
      TrackDelivered 0 ''t1'' [] True, ClientConnected ''C'',
      ReadyStateChanged ''t1'' Ended]"

text \<open>After \<open>endedBeforeTimer\<close> the settling timer of \<open>C\<close> fires, so that \<open>C\<close> gets a
  connection with no track bound and the interval that waits for a live track; then
  the track is observed live again.\<close>

definition waitingForLive :: "event list" where
  "waitingForLive =
     [ClientConnected ''P'', OfferReceived ''P'', OfferResumed ''P'' 0 Negotiated True,
      TrackDelivered 0 ''t1'' [] True, ClientConnected ''C'',
      ReadyStateChanged ''t1'' Ended, TimerFired (CreateReceiver ''C'') 0 True,
      ReadyStateChanged ''t1'' Live]"

text \<open>The producer's track \<open>t1\<close> ends while the producer connection has no other
  track; and the same with a second, live track \<open>t2\<close> among the receivers.\<close>

definition trackEnds :: "event list" where
  "trackEnds =
     [ClientConnected ''P'', OfferReceived ''P'', OfferResumed ''P'' 0 Negotiated True,
      TrackDelivered 0 ''t1'' [] True, ReadyStateChanged ''t1'' Ended]"

definition replacementArrives :: "event list" where
  "replacementArrives =
     [ClientConnected ''P'', OfferReceived ''P'', OfferResumed ''P'' 0 Negotiated True,
      TrackDelivered 0 ''t1'' [] True, ReadyStateChanged ''t1'' Ended,
      ReceiversChanged 0 [''t1'', ''t2'']]"

text \<open>A producer has negotiated; the track \<open>t1\<close> it is about to deliver is not live
  yet.\<close>

definition pendingTrack :: "event list" where
  "pendingTrack =
     [ClientConnected ''P'', OfferReceived ''P'', OfferResumed ''P'' 0 Negotiated True,
      ReadyStateChanged ''t1'' PendingLive]"

section \<open>Properties\<close>

subsection \<open>The page's candidate queue\<close>

lemma receiveAll_queues:
  "peerConnectionRef s = Some pc \<Longrightarrow> signalingState pc \<noteq> SignalingClosed \<Longrightarrow>
   \<not> hasRemoteDescription pc \<Longrightarrow>
   receiveAll acc cs s = s\<lparr>iceCandidateQueueRef := iceCandidateQueueRef s @ cs\<rparr>"
  by (induction cs arbitrary: s) (simp_all add: pageHandleIceCandidate_def)

lemma receiveAll_applies:
  "peerConnectionRef s = Some pc \<Longrightarrow> signalingState pc \<noteq> SignalingClosed \<Longrightarrow>
   hasRemoteDescription pc \<Longrightarrow>
   peerConnectionRef (receiveAll acc xs s) =
     Some (pc\<lparr>attempted := attempted pc @ xs, applied := applied pc @ filter acc xs\<rparr>)
   \<and> iceCandidateQueueRef (receiveAll acc xs s) =
       iceCandidateQueueRef s @ filter (\<lambda>c. \<not> acc c) xs"
proof (induction xs arbitrary: s pc)
  case Nil
  then show ?case by simp
next
  case (Cons x xs)
  let ?s = "pageHandleIceCandidate acc x s" and ?pc = "pageAddIceCandidate acc x pc"
  have s: "peerConnectionRef ?s = Some ?pc"
    "iceCandidateQueueRef ?s = iceCandidateQueueRef s @ filter (\<lambda>c. \<not> acc c) [x]"
    using Cons.prems by (simp_all add: pageHandleIceCandidate_def)
  have pc: "signalingState ?pc \<noteq> SignalingClosed" "hasRemoteDescription ?pc"
    "attempted ?pc = attempted pc @ [x]" "applied ?pc = applied pc @ filter acc [x]"
    using Cons.prems by (simp_all add: pageAddIceCandidate_def)
  have upd: "?pc\<lparr>attempted := attempted ?pc @ xs, applied := applied ?pc @ filter acc xs\<rparr>
      = pc\<lparr>attempted := attempted pc @ x # xs, applied := applied pc @ filter acc (x # xs)\<rparr>"
    by (simp add: pageAddIceCandidate_def)
  from Cons.IH [OF s(1) pc(1) pc(2)] show ?case
    unfolding upd s(2) by simp
qed

lemma applyQueued_result:
  "peerConnectionRef s = Some pc \<Longrightarrow> signalingState pc \<noteq> SignalingClosed \<Longrightarrow>
   hasRemoteDescription pc \<Longrightarrow>
   peerConnectionRef (applyQueued acc arr k cs s) =
     Some (pc\<lparr>attempted := attempted pc @ woven cs arr k,
              applied := applied pc @ filter acc (woven cs arr k)\<rparr>)
   \<and> iceCandidateQueueRef (applyQueued acc arr k cs s) =
       iceCandidateQueueRef s @ filter (\<lambda>c. \<not> acc c) (arrived (length cs) arr k)"
proof (induction cs arbitrary: s pc k)
  case Nil
  then show ?case by simp
next
  case (Cons c cs)
  let ?s1 = "s\<lparr>peerConnectionRef := map_option (pageAddIceCandidate acc c) (peerConnectionRef s)\<rparr>"
  let ?pc1 = "pageAddIceCandidate acc c pc"
  let ?s2 = "receiveAll acc (arr k) ?s1"
  let ?pc2 = "?pc1\<lparr>attempted := attempted ?pc1 @ arr k,
                     applied := applied ?pc1 @ filter acc (arr k)\<rparr>"
  have s1: "peerConnectionRef ?s1 = Some ?pc1" "iceCandidateQueueRef ?s1 = iceCandidateQueueRef s"
    using Cons.prems by simp_all
  have pc1: "signalingState ?pc1 \<noteq> SignalingClosed" "hasRemoteDescription ?pc1"
    using Cons.prems by (simp_all add: pageAddIceCandidate_def)
  from receiveAll_applies [OF s1(1) pc1, of acc "arr k"]
  have s2: "peerConnectionRef ?s2 = Some ?pc2"
    "iceCandidateQueueRef ?s2 = iceCandidateQueueRef s @ filter (\<lambda>c. \<not> acc c) (arr k)"
    by (simp_all add: s1(2))
  have pc2: "signalingState ?pc2 \<noteq> SignalingClosed" "hasRemoteDescription ?pc2"
    using pc1 by simp_all
  have upd: "?pc2\<lparr>attempted := attempted ?pc2 @ woven cs arr (k + 1),
                   applied := applied ?pc2 @ filter acc (woven cs arr (k + 1))\<rparr>
      = pc\<lparr>attempted := attempted pc @ woven (c # cs) arr k,
            applied := applied pc @ filter acc (woven (c # cs) arr k)\<rparr>"
    by (simp add: pageAddIceCandidate_def)
  from Cons.IH [OF s2(1) pc2, of "k + 1"] show ?case
    unfolding upd s2(2) by simp
qed

lemma woven_quiet:
  "(\<And>j. j < length cs \<Longrightarrow> arr (k + j) = []) \<Longrightarrow>
   woven cs arr k = cs \<and> arrived (length cs) arr k = []"
proof (induction cs arbitrary: k)
  case Nil
  then show ?case by simp
next
  case (Cons c cs)
  have "arr k = []"
    using Cons.prems [of 0] by simp
  moreover have "woven cs arr (k + 1) = cs \<and> arrived (length cs) arr (k + 1) = []"
  proof (rule Cons.IH)
    fix j assume "j < length cs"
    then show "arr (k + 1 + j) = []"
      using Cons.prems [of "Suc j"] by simp
  qed
  ultimately show ?case by simp
qed




subsection \<open>The registries and the store\<close>

lemma map_update_same:
  "f y = f (xs ! k) \<Longrightarrow> map f (xs[k := y]) = map f xs"
proof (cases "k < length xs")
  case True
  assume "f y = f (xs ! k)"
  with True show ?thesis
    by (simp add: map_update list_update_same_conv)
next
  case False
  then have "length xs \<le> k" by simp
  then have "xs[k := y] = xs" by (rule list_update_beyond)
  then show ?thesis by simp
qed

lemma shape_invI:
  assumes "\<And>p. sp = Some p \<Longrightarrow> p < length ids \<and> fst (ids ! p) = Producer \<and> \<not> snd (snd (ids ! p))"
    and "\<And>p. p < length ids \<Longrightarrow> fst (ids ! p) = Producer \<Longrightarrow> \<not> snd (snd (ids ! p)) \<Longrightarrow> sp = Some p"
    and "\<And>c q. rp c = Some q \<Longrightarrow> q < length ids \<and> ids ! q = (Consumer, c, False)"
  shows "shape_inv ids sp rp"
  using assms unfolding shape_inv_def by blast

lemma shape_invD1:
  "shape_inv ids sp rp \<Longrightarrow> sp = Some p \<Longrightarrow>
   p < length ids \<and> fst (ids ! p) = Producer \<and> \<not> snd (snd (ids ! p))"
  unfolding shape_inv_def by blast

lemma shape_invD2:
  "shape_inv ids sp rp \<Longrightarrow> p < length ids \<Longrightarrow> fst (ids ! p) = Producer \<Longrightarrow>
   \<not> snd (snd (ids ! p)) \<Longrightarrow> sp = Some p"
  unfolding shape_inv_def by blast

lemma shape_invD3:
  "shape_inv ids sp rp \<Longrightarrow> rp c = Some q \<Longrightarrow> q < length ids \<and> ids ! q = (Consumer, c, False)"
  unfolding shape_inv_def by blast

lemma shape_close_producer:
  assumes inv: "shape_inv ids (Some p) rp"
  shows "shape_inv (ids[p := closeIdent (ids ! p)]) None rp"
proof (rule shape_invI)
  fix q assume "(None :: pc_ref option) = Some q"
  then show "q < length (ids[p := closeIdent (ids ! p)])
    \<and> fst (ids[p := closeIdent (ids ! p)] ! q) = Producer
    \<and> \<not> snd (snd (ids[p := closeIdent (ids ! p)] ! q))"
    by simp
next
  fix q
  assume q: "q < length (ids[p := closeIdent (ids ! p)])"
    and prod: "fst (ids[p := closeIdent (ids ! p)] ! q) = Producer"
    and op: "\<not> snd (snd (ids[p := closeIdent (ids ! p)] ! q))"
  have "q \<noteq> p"
    using q op by (auto simp: closeIdent_def)
  with q prod op have "q < length ids" "fst (ids ! q) = Producer" "\<not> snd (snd (ids ! q))"
    by simp_all
  from shape_invD2 [OF inv this] \<open>q \<noteq> p\<close> show "None = Some q"
    by simp
next
  fix c q assume "rp c = Some q"
  from shape_invD3 [OF inv this] have q: "q < length ids" "ids ! q = (Consumer, c, False)"
    by simp_all
  from shape_invD1 [OF inv refl] have "fst (ids ! p) = Producer"
    by simp
  with q have "q \<noteq> p" by auto
  with q show "q < length (ids[p := closeIdent (ids ! p)])
    \<and> ids[p := closeIdent (ids ! p)] ! q = (Consumer, c, False)"
    by simp
qed

lemma shape_new_producer:
  assumes inv: "shape_inv ids None rp"
  shows "shape_inv (ids @ [(Producer, c, False)]) (Some (length ids)) rp"
proof (rule shape_invI)
  fix q assume "Some (length ids) = Some q"
  then show "q < length (ids @ [(Producer, c, False)])
    \<and> fst ((ids @ [(Producer, c, False)]) ! q) = Producer
    \<and> \<not> snd (snd ((ids @ [(Producer, c, False)]) ! q))"
    by auto
next
  fix q
  assume q: "q < length (ids @ [(Producer, c, False)])"
    and prod: "fst ((ids @ [(Producer, c, False)]) ! q) = Producer"
    and op: "\<not> snd (snd ((ids @ [(Producer, c, False)]) ! q))"
  show "Some (length ids) = Some q"
  proof (cases "q < length ids")
    case True
    with prod op have "fst (ids ! q) = Producer" "\<not> snd (snd (ids ! q))"
      by (simp_all add: nth_append)
    from shape_invD2 [OF inv True this] show ?thesis by simp
  next
    case False
    with q show ?thesis by simp
  qed
next
  fix d q assume "rp d = Some q"
  from shape_invD3 [OF inv this]
  show "q < length (ids @ [(Producer, c, False)])
    \<and> (ids @ [(Producer, c, False)]) ! q = (Consumer, d, False)"
    by (simp add: nth_append)
qed

lemma shape_close_consumer:
  assumes inv: "shape_inv ids sp rp" and c: "rp c = Some q"
  shows "shape_inv (ids[q := closeIdent (ids ! q)]) sp (rp(c := None))"
proof (rule shape_invI)
  from shape_invD3 [OF inv c] have q: "q < length ids" "ids ! q = (Consumer, c, False)"
    by simp_all
  {
    fix p assume sp: "sp = Some p"
    from shape_invD1 [OF inv sp] have p: "p < length ids" "fst (ids ! p) = Producer"
      "\<not> snd (snd (ids ! p))" by simp_all
    with q have "p \<noteq> q" by auto
    with p show "p < length (ids[q := closeIdent (ids ! q)])
      \<and> fst (ids[q := closeIdent (ids ! q)] ! p) = Producer
      \<and> \<not> snd (snd (ids[q := closeIdent (ids ! q)] ! p))"
      by simp
  next
    fix p
    assume p: "p < length (ids[q := closeIdent (ids ! q)])"
      and prod: "fst (ids[q := closeIdent (ids ! q)] ! p) = Producer"
      and op: "\<not> snd (snd (ids[q := closeIdent (ids ! q)] ! p))"
    have "p \<noteq> q"
      using p op by (auto simp: closeIdent_def)
    with p prod op have "p < length ids" "fst (ids ! p) = Producer" "\<not> snd (snd (ids ! p))"
      by simp_all
    from shape_invD2 [OF inv this] show "sp = Some p" .
  next
    fix d r assume "(rp(c := None)) d = Some r"
    then have d: "d \<noteq> c" "rp d = Some r"
      by (auto split: if_splits)
    from shape_invD3 [OF inv d(2)] have r: "r < length ids" "ids ! r = (Consumer, d, False)"
      by simp_all
    with q d have "r \<noteq> q" by auto
    with r show "r < length (ids[q := closeIdent (ids ! q)])
      \<and> ids[q := closeIdent (ids ! q)] ! r = (Consumer, d, False)"
      by simp
  }
qed

lemma shape_new_consumer:
  assumes inv: "shape_inv ids sp rp" and c: "rp c = None"
  shows "shape_inv (ids @ [(Consumer, c, False)]) sp (rp(c \<mapsto> length ids))"
proof (rule shape_invI)
  fix p assume sp: "sp = Some p"
  from shape_invD1 [OF inv sp]
  show "p < length (ids @ [(Consumer, c, False)])
    \<and> fst ((ids @ [(Consumer, c, False)]) ! p) = Producer
    \<and> \<not> snd (snd ((ids @ [(Consumer, c, False)]) ! p))"
    by (simp add: nth_append)
next
  fix p
  assume p: "p < length (ids @ [(Consumer, c, False)])"
    and prod: "fst ((ids @ [(Consumer, c, False)]) ! p) = Producer"
    and op: "\<not> snd (snd ((ids @ [(Consumer, c, False)]) ! p))"
  have lt: "p < length ids"
  proof (rule ccontr)
    assume "\<not> p < length ids"
    with p have "p = length ids" by simp
    with prod show False by simp
  qed
  with prod op have "fst (ids ! p) = Producer" "\<not> snd (snd (ids ! p))"
    by (simp_all add: nth_append)
  from shape_invD2 [OF inv lt this] show "sp = Some p" .
next
  fix d r assume dr: "(rp(c \<mapsto> length ids)) d = Some r"
  show "r < length (ids @ [(Consumer, c, False)])
    \<and> (ids @ [(Consumer, c, False)]) ! r = (Consumer, d, False)"
  proof (cases "d = c")
    case True
    with dr have r: "r = length ids" by simp
    show ?thesis unfolding r True by simp
  next
    case False
    with dr have "rp d = Some r" by simp
    from shape_invD3 [OF inv this] show ?thesis
      by (simp add: nth_append)
  qed
qed

lemma shape_forget_consumer:
  assumes inv: "shape_inv ids sp rp"
  shows "shape_inv ids sp (rp(c := None))"
proof (rule shape_invI)
  fix p assume "sp = Some p"
  from shape_invD1 [OF inv this]
  show "p < length ids \<and> fst (ids ! p) = Producer \<and> \<not> snd (snd (ids ! p))" .
next
  fix p assume "p < length ids" "fst (ids ! p) = Producer" "\<not> snd (snd (ids ! p))"
  from shape_invD2 [OF inv this] show "sp = Some p" .
next
  fix d r assume "(rp(c := None)) d = Some r"
  then have "rp d = Some r" by (auto split: if_splits)
  from shape_invD3 [OF inv this] show "r < length ids \<and> ids ! r = (Consumer, d, False)" .
qed

subsection \<open>What each vendor operation changes\<close>

lemma emit_fields [simp]:
  "wrtc (emit es s) = wrtc s"
  "connections (emit es s) = connections s"
  "senderPeerConnection (emit es s) = senderPeerConnection s"
  "senderClientId (emit es s) = senderClientId s"
  "receiverPeerConnections (emit es s) = receiverPeerConnections s"
  "receivedStream (emit es s) = receivedStream s"
  "pcs (emit es s) = pcs s"
  "tracks (emit es s) = tracks s"
  "currentTrack (emit es s) = currentTrack s"
  "trace (emit es s) = trace s @ es"
  by (simp_all add: emit_def)

lemma construct_fields [simp]:
  "wrtc (construct r c s) = wrtc s"
  "connections (construct r c s) = connections s"
  "senderPeerConnection (construct r c s) = senderPeerConnection s"
  "senderClientId (construct r c s) = senderClientId s"
  "receiverPeerConnections (construct r c s) = receiverPeerConnections s"
  "receivedStream (construct r c s) = receivedStream s"
  "pcs (construct r c s) = pcs s @ [newPeer r c]"
  "tracks (construct r c s) = tracks s"
  "currentTrack (construct r c s) = currentTrack s"
  "trace (construct r c s) = trace s @ [PcCreated r (length (pcs s))]"
  by (simp_all add: construct_def)

lemma close_fields [simp]:
  "wrtc (close p s) = wrtc s"
  "connections (close p s) = connections s"
  "senderPeerConnection (close p s) = senderPeerConnection s"
  "senderClientId (close p s) = senderClientId s"
  "receiverPeerConnections (close p s) = receiverPeerConnections s"
  "receivedStream (close p s) = receivedStream s"
  "length (pcs (close p s)) = length (pcs s)"
  "tracks (close p s) = tracks s"
  "currentTrack (close p s) = currentTrack s"
  "trace (close p s) = trace s @ [PcClosed p]"
  by (simp_all add: close_def)

lemma setRemoteDescription_fields [simp]:
  "wrtc (setRemoteDescription p s) = wrtc s"
  "connections (setRemoteDescription p s) = connections s"
  "senderPeerConnection (setRemoteDescription p s) = senderPeerConnection s"
  "senderClientId (setRemoteDescription p s) = senderClientId s"
  "receiverPeerConnections (setRemoteDescription p s) = receiverPeerConnections s"
  "receivedStream (setRemoteDescription p s) = receivedStream s"
  "length (pcs (setRemoteDescription p s)) = length (pcs s)"
  "tracks (setRemoteDescription p s) = tracks s"
  "currentTrack (setRemoteDescription p s) = currentTrack s"
  "trace (setRemoteDescription p s) = trace s"
  by (simp_all add: setRemoteDescription_def)

lemma setLocalDescription_fields [simp]:
  "wrtc (setLocalDescription p s) = wrtc s"
  "connections (setLocalDescription p s) = connections s"
  "senderPeerConnection (setLocalDescription p s) = senderPeerConnection s"
  "senderClientId (setLocalDescription p s) = senderClientId s"
  "receiverPeerConnections (setLocalDescription p s) = receiverPeerConnections s"
  "receivedStream (setLocalDescription p s) = receivedStream s"
  "length (pcs (setLocalDescription p s)) = length (pcs s)"
  "tracks (setLocalDescription p s) = tracks s"
  "currentTrack (setLocalDescription p s) = currentTrack s"
  "trace (setLocalDescription p s) = trace s"
  by (simp_all add: setLocalDescription_def)

lemma addIceCandidate_fields [simp]:
  "wrtc (addIceCandidate p x s) = wrtc s"
  "connections (addIceCandidate p x s) = connections s"
  "senderPeerConnection (addIceCandidate p x s) = senderPeerConnection s"
  "senderClientId (addIceCandidate p x s) = senderClientId s"
  "receiverPeerConnections (addIceCandidate p x s) = receiverPeerConnections s"
  "receivedStream (addIceCandidate p x s) = receivedStream s"
  "length (pcs (addIceCandidate p x s)) = length (pcs s)"
  "tracks (addIceCandidate p x s) = tracks s"
  "currentTrack (addIceCandidate p x s) = currentTrack s"
  "trace (addIceCandidate p x s) = trace s @ [CandidateAdded p x]"
  by (simp_all add: addIceCandidate_def)

lemma addTracks_fields [simp]:
  "wrtc (addTracks p ts s) = wrtc s"
  "connections (addTracks p ts s) = connections s"
  "senderPeerConnection (addTracks p ts s) = senderPeerConnection s"
  "senderClientId (addTracks p ts s) = senderClientId s"
  "receiverPeerConnections (addTracks p ts s) = receiverPeerConnections s"
  "receivedStream (addTracks p ts s) = receivedStream s"
  "length (pcs (addTracks p ts s)) = length (pcs s)"
  "tracks (addTracks p ts s) = tracks s"
  "currentTrack (addTracks p ts s) = currentTrack s"
  "trace (addTracks p ts s) = trace s"
  by (simp_all add: addTracks_def)

lemma promote_fields [simp]:
  "wrtc (promote m t s) = wrtc s"
  "connections (promote m t s) = connections s"
  "senderPeerConnection (promote m t s) = senderPeerConnection s"
  "senderClientId (promote m t s) = senderClientId s"
  "receiverPeerConnections (promote m t s) = receiverPeerConnections s"
  "receivedStream (promote m t s) = Some [t]"
  "pcs (promote m t s) = pcs s"
  "tracks (promote m t s) = tracks s"
  "currentTrack (promote m t s) = (currentTrack s)[m := t]"
  "trace (promote m t s) = trace s"
  by (simp_all add: promote_def)
lemma isLive_frame [simp]:
  "isLive (emit es s) = isLive s"
  "isLive (construct r c s) = isLive s"
  "isLive (close p s) = isLive s"
  "isLive (setRemoteDescription p s) = isLive s"
  "isLive (setLocalDescription p s) = isLive s"
  "isLive (addIceCandidate p x s) = isLive s"
  "isLive (addTracks p ts s) = isLive s"
  "isLive (promote m t s) = isLive s"
  by (simp_all add: isLive_def fun_eq_iff)

lemma idents_simps [simp]:
  "idents (emit es s) = idents s"
  "idents (construct r c s) = idents s @ [(r, c, False)]"
  "idents (setRemoteDescription p s) = idents s"
  "idents (setLocalDescription p s) = idents s"
  "idents (addIceCandidate p x s) = idents s"
  "idents (addTracks p ts s) = idents s"
  "idents (promote m t s) = idents s"
  by (simp_all add: idents_def ident_def emit_def construct_def newPeer_def
      setRemoteDescription_def setLocalDescription_def addIceCandidate_def addTracks_def
      promote_def map_update_same)

lemma idents_close [simp]:
  "idents (close p s) = (idents s)[p := closeIdent (idents s ! p)]"
proof (cases "p < length (pcs s)")
  case True
  then show ?thesis
    by (simp add: idents_def close_def map_update ident_def closeIdent_def)
next
  case False
  then have "length (pcs s) \<le> p" by simp
  then have "(pcs s)[p := x] = pcs s" and "(map ident (pcs s))[p := y] = map ident (pcs s)" for x y
    by (simp_all add: list_update_beyond)
  then show ?thesis
    by (simp add: idents_def close_def)
qed

lemma idents_updates [simp]:
  "idents (s\<lparr>connections := a\<rparr>) = idents s"
  "idents (s\<lparr>senderPeerConnection := b\<rparr>) = idents s"
  "idents (s\<lparr>senderClientId := c\<rparr>) = idents s"
  "idents (s\<lparr>receiverPeerConnections := d\<rparr>) = idents s"
  "idents (s\<lparr>receivedStream := e\<rparr>) = idents s"
  "idents (s\<lparr>tracks := f\<rparr>) = idents s"
  "idents (s\<lparr>currentTrack := g\<rparr>) = idents s"
  "idents (s\<lparr>trace := h\<rparr>) = idents s"
  by (simp_all add: idents_def)

lemma length_idents [simp]: "length (idents s) = length (pcs s)"
  by (simp add: idents_def)

lemma hub_inv_cong:
  "idents s' = idents s \<Longrightarrow> senderPeerConnection s' = senderPeerConnection s \<Longrightarrow>
   receiverPeerConnections s' = receiverPeerConnections s \<Longrightarrow> hub_inv s' = hub_inv s"
  by (simp add: hub_inv_def)

lemma inv_initial: "hub_inv (initial w ts)"
  by (simp add: hub_inv_def shape_inv_def idents_def initial_def)

subsection \<open>Every handler keeps the invariant\<close>

lemma inv_basic [simp]:
  "hub_inv (emit es s) = hub_inv s"
  "hub_inv (setRemoteDescription p s) = hub_inv s"
  "hub_inv (setLocalDescription p s) = hub_inv s"
  "hub_inv (addIceCandidate p x s) = hub_inv s"
  "hub_inv (addTracks p ts s) = hub_inv s"
  "hub_inv (promote m t s) = hub_inv s"
  by (simp_all add: hub_inv_def)

lemma inv_updates [simp]:
  "hub_inv (s\<lparr>connections := a\<rparr>) = hub_inv s"
  "hub_inv (s\<lparr>senderClientId := c\<rparr>) = hub_inv s"
  "hub_inv (s\<lparr>receivedStream := e\<rparr>) = hub_inv s"
  "hub_inv (s\<lparr>tracks := f\<rparr>) = hub_inv s"
  "hub_inv (s\<lparr>currentTrack := g\<rparr>) = hub_inv s"
  "hub_inv (s\<lparr>trace := h\<rparr>) = hub_inv s"
  by (simp_all add: hub_inv_def)

lemma createReceiverConnection_sender [simp]:
  "senderPeerConnection (createReceiverConnection c ok s) = senderPeerConnection s"
  by (simp add: createReceiverConnection_def Let_def split: option.splits)

lemma createReceiverConnection_map:
  "receiverPeerConnections (createReceiverConnection c ok s) =
     (if wrtc s \<and> c \<in> set (connections s)
      then (receiverPeerConnections s)(c \<mapsto> length (pcs s))
      else receiverPeerConnections s)"
  by (simp add: createReceiverConnection_def Let_def split: option.splits)

lemma createReceiverConnection_idents:
  "idents (createReceiverConnection c ok s) =
     (if wrtc s \<and> c \<in> set (connections s)
      then (case receiverPeerConnections s c of
              Some q \<Rightarrow> (idents s)[q := closeIdent (idents s ! q)]
            | None \<Rightarrow> idents s) @ [(Consumer, c, False)]
      else idents s)"
  by (simp add: createReceiverConnection_def Let_def split: option.splits)

lemma inv_createReceiverConnection:
  assumes "hub_inv s"
  shows "hub_inv (createReceiverConnection c ok s)"
proof (cases "wrtc s \<and> c \<in> set (connections s)")
  case False
  then have "createReceiverConnection c ok s = emit [Notice (ClientNotFound c)] s
      \<or> createReceiverConnection c ok s = emit [Notice WrtcNotLoaded] s"
    by (auto simp: createReceiverConnection_def)
  with assms show ?thesis
    by auto
next
  case True
  let ?ids = "idents s" and ?sp = "senderPeerConnection s" and ?rp = "receiverPeerConnections s"
  from assms have inv: "shape_inv ?ids ?sp ?rp"
    by (simp add: hub_inv_def)
  show ?thesis
  proof (cases "?rp c")
    case None
    from shape_new_consumer [OF inv None] True None show ?thesis
      by (simp add: hub_inv_def createReceiverConnection_map createReceiverConnection_idents)
  next
    case (Some q)
    from shape_close_consumer [OF inv Some]
    have "shape_inv (?ids[q := closeIdent (?ids ! q)]) ?sp (?rp(c := None))" .
    from shape_new_consumer [OF this, of c] True Some show ?thesis
      by (simp add: hub_inv_def createReceiverConnection_map createReceiverConnection_idents)
  qed
qed

lemma inv_fold:
  assumes "\<And>x s. hub_inv s \<Longrightarrow> hub_inv (f x s)"
  shows "hub_inv s \<Longrightarrow> hub_inv (fold f xs s)"
  by (induction xs arbitrary: s) (simp_all add: assms)

lemma inv_monitorTrack [simp]: "hub_inv (monitorTrack m s) = hub_inv s"
  by (simp add: monitorTrack_def Let_def split: option.splits)

lemma inv_processLiveTrack:
  "hub_inv s \<Longrightarrow> hub_inv (processLiveTrack t streams sender ok s)"
  unfolding processLiveTrack_def Let_def
  by (rule inv_fold) (simp_all add: inv_createReceiverConnection)

lemma inv_handleTrackReceived:
  "hub_inv s \<Longrightarrow> hub_inv (handleTrackReceived t streams sender ok s)"
  by (simp add: handleTrackReceived_def inv_processLiveTrack)

lemma inv_waitTrackLive:
  "hub_inv s \<Longrightarrow> hub_inv (fst (waitTrackLive t streams sender n ok s))"
  by (simp add: waitTrackLive_def inv_processLiveTrack)

lemma inv_ontrack: "hub_inv s \<Longrightarrow> hub_inv (ontrack p t streams ok s)"
  by (simp add: ontrack_def inv_handleTrackReceived)

lemma inv_checkTrackState:
  "hub_inv s \<Longrightarrow> hub_inv (fst (checkTrackState t streams sender n ok s))"
  by (simp add: checkTrackState_def Let_def inv_handleTrackReceived)

lemma inv_waitReceiverLive: "hub_inv (fst (waitReceiverLive p n s)) = hub_inv s"
  by (simp add: waitReceiverLive_def Let_def)

lemma inv_searchLive: "hub_inv (fst (searchLive m n s)) = hub_inv s"
  by (simp add: searchLive_def Let_def split: option.splits)

lemma inv_trackEnded: "hub_inv (trackEnded t s) = hub_inv s"
  by (simp add: trackEnded_def Let_def split: option.splits ended_handler.splits)

lemma inv_handleConnection: "hub_inv (handleConnection c s) = hub_inv s"
  by (simp add: handleConnection_def handleConnectionAccept_def Let_def)

lemma inv_handleAnswer: "hub_inv (handleAnswer c ok s) = hub_inv s"
  by (simp add: handleAnswer_def split: option.splits)

lemma inv_handleIceCandidate: "hub_inv (handleIceCandidate c x ok s) = hub_inv s"
  by (simp add: handleIceCandidate_def tryAddIceCandidate_def Let_def split: option.splits)

lemma inv_handleOfferResumed:
  "hub_inv s \<Longrightarrow> hub_inv (handleOfferResumed c p outcome ok s)"
  by (simp add: handleOfferResumed_def Let_def inv_handleTrackReceived
      split: negotiation.splits option.splits)

lemma inv_handleOffer:
  assumes "hub_inv s"
  shows "hub_inv (handleOffer c s)"
proof (cases "wrtc s")
  case False
  with assms show ?thesis by (simp add: handleOffer_def)
next
  case True
  from assms have inv: "shape_inv (idents s) (senderPeerConnection s) (receiverPeerConnections s)"
    by (simp add: hub_inv_def)
  show ?thesis
  proof (cases "senderPeerConnection s")
    case None
    with inv have "shape_inv (idents s) None (receiverPeerConnections s)" by simp
    from shape_new_producer [OF this, of c] True None show ?thesis
      by (simp add: handleOffer_def hub_inv_def Let_def)
  next
    case (Some p)
    with inv have "shape_inv (idents s) (Some p) (receiverPeerConnections s)" by simp
    from shape_new_producer [OF shape_close_producer [OF this], of c] True Some show ?thesis
      by (simp add: handleOffer_def hub_inv_def Let_def)
  qed
qed

lemma inv_handleDisconnect:
  assumes "hub_inv s"
  shows "hub_inv (handleDisconnect c s)"
proof -
  let ?s1 = "s\<lparr>connections := removeAll c (connections s)\<rparr>"
  let ?s2 = "(case senderPeerConnection ?s1 of
                Some p \<Rightarrow>
                  if senderClientId ?s1 = Some c then
                    (close p ?s1)\<lparr>senderPeerConnection := None, senderClientId := None,
                                  receivedStream := None\<rparr>
                  else ?s1
              | None \<Rightarrow> ?s1)"
  have s2: "hub_inv ?s2"
  proof (cases "senderPeerConnection s")
    case None
    with assms show ?thesis by simp
  next
    case (Some p)
    from assms Some have "shape_inv (idents s) (Some p) (receiverPeerConnections s)"
      by (simp add: hub_inv_def)
    from shape_close_producer [OF this] assms Some show ?thesis
      by (simp add: hub_inv_def)
  qed
  have "hub_inv (case receiverPeerConnections ?s2 c of
           Some receiverPC \<Rightarrow>
             (close receiverPC ?s2)\<lparr>receiverPeerConnections := (receiverPeerConnections ?s2)(c := None)\<rparr>
         | None \<Rightarrow> ?s2)"
  proof (cases "receiverPeerConnections ?s2 c")
    case None
    with s2 show ?thesis by simp
  next
    case (Some q)
    from s2 have "shape_inv (idents ?s2) (senderPeerConnection ?s2) (receiverPeerConnections ?s2)"
      by (simp add: hub_inv_def)
    from shape_close_consumer [OF this Some] Some show ?thesis
      by (simp add: hub_inv_def)
  qed
  then show ?thesis
    by (simp add: handleDisconnect_def Let_def)
qed

lemma inv_onconnectionstatechange:
  assumes "hub_inv s"
  shows "hub_inv (onconnectionstatechange p st s)"
proof -
  define s1 where "s1 = s\<lparr>pcs := (pcs s)[p := (pcs s ! p)\<lparr>connectionState := st\<rparr>]\<rparr>"
  have "idents s1 = idents s"
    by (simp add: s1_def idents_def ident_def map_update_same)
  with assms have inv1: "hub_inv s1"
    by (simp add: hub_inv_def s1_def)
  then have "shape_inv (idents s1) (senderPeerConnection s1) (receiverPeerConnections s1)"
    by (simp add: hub_inv_def)
  from shape_forget_consumer [OF this]
  have inv2: "hub_inv (s1\<lparr>receiverPeerConnections := (receiverPeerConnections s1)(d := None)\<rparr>)" for d
    by (simp add: hub_inv_def)
  have "onconnectionstatechange p st s =
     (case role (pcs s1 ! p) of
           Producer \<Rightarrow>
             (case senderPeerConnection s1 of
                Some q \<Rightarrow>
                  if connectionState (pcs s1 ! q) = Disconnected
                     \<or> connectionState (pcs s1 ! q) = Failed
                  then s1\<lparr>receivedStream := None\<rparr> else s1
              | None \<Rightarrow> s1)
         | Consumer \<Rightarrow>
             if st = Disconnected \<or> st = Failed
             then s1\<lparr>receiverPeerConnections :=
                       (receiverPeerConnections s1)(owner (pcs s1 ! p) := None)\<rparr>
             else s1)"
    unfolding onconnectionstatechange_def Let_def s1_def by (rule refl)
  with inv1 inv2 show ?thesis
    by (simp split: role.splits option.splits)
qed

lemma inv_fire: "hub_inv s \<Longrightarrow> hub_inv (fire k n ok s)"
  by (cases k)
    (simp_all add: inv_createReceiverConnection inv_checkTrackState inv_waitTrackLive
      inv_searchLive inv_waitReceiverLive)

lemma inv_step: "hub_inv s \<Longrightarrow> hub_inv (step e s)"
proof (cases e)
  case (ReceiversChanged p ts)
  have "idents (s\<lparr>pcs := (pcs s)[p := (pcs s ! p)\<lparr>receivers := ts\<rparr>]\<rparr>) = idents s"
    by (simp add: idents_def ident_def map_update_same)
  then have "hub_inv (s\<lparr>pcs := (pcs s)[p := (pcs s ! p)\<lparr>receivers := ts\<rparr>]\<rparr>) = hub_inv s"
    by (simp add: hub_inv_def)
  then show "hub_inv s \<Longrightarrow> hub_inv (step e s)"
    using ReceiversChanged by simp
qed (simp_all add: inv_handleConnection handleConnectionAccept_def handleConnectionReject_def
      inv_handleDisconnect inv_handleOffer inv_handleOfferResumed inv_handleAnswer
      inv_handleIceCandidate inv_ontrack inv_trackEnded inv_onconnectionstatechange inv_fire)

lemma inv_run: "hub_inv s \<Longrightarrow> hub_inv (run es s)"
  by (induction es arbitrary: s) (simp_all add: inv_step)

subsection \<open>The single producer\<close>

lemmas hub_defs =
  initial_def emit_def newPeer_def construct_def close_def setRemoteDescription_def
  setLocalDescription_def addIceCandidate_def addTracks_def isLive_def liveVideoTracks_def
  createReceiverConnection_def waitReceiverLive_def pickReplacement_def promote_def
  monitorTrack_def searchLive_def trackEnded_def processLiveTrack_def handleTrackReceived_def
  waitTrackLive_def ontrack_def checkTrackState_def handleConnectionAccept_def
  handleConnectionReject_def handleConnection_def handleDisconnect_def handleOffer_def
  handleOfferResumed_def handleAnswer_def tryAddIceCandidate_def handleIceCandidate_def
  onconnectionstatechange_def tracks0_def hub0_def producing_def streaming_def
  takeover_def consumerCandidate_def earlyCandidate_def endedBeforeTimer_def
  trackEnds_def replacementArrives_def pendingTrack_def waitingForLive_def

lemma filter_upt_unique:
  "p < n \<Longrightarrow> P p \<Longrightarrow> (\<And>q. q < n \<Longrightarrow> P q \<Longrightarrow> q = p) \<Longrightarrow> filter P [0..<n] = [p]"
proof (induction n)
  case 0
  then show ?case by simp
next
  case (Suc n)
  show ?case
  proof (cases "p = n")
    case True
    have "\<not> P q" if "q < n" for q
      using Suc.prems(3) [of q] that True by auto
    then have "filter P [0..<n] = []"
      by (simp add: filter_empty_conv)
    with True Suc.prems(2) show ?thesis by simp
  next
    case False
    with Suc.prems(1) have lt: "p < n" by simp
    have "\<not> P n"
      using Suc.prems(3) [of n] False by auto
    moreover have "filter P [0..<n] = [p]"
      using Suc.IH [OF lt Suc.prems(2)] Suc.prems(3) by simp
    ultimately show ?thesis by simp
  qed
qed

lemma idents_nth:
  "p < length (pcs s) \<Longrightarrow> idents s ! p = (role (pcs s ! p), owner (pcs s ! p), isClosed (pcs s ! p))"
  by (simp add: idents_def ident_def)

lemma hub_inv_sender:
  assumes "hub_inv s" and "senderPeerConnection s = Some p"
  shows "p < length (pcs s)" and "role (pcs s ! p) = Producer" and "\<not> isClosed (pcs s ! p)"
proof -
  from assms have *: "p < length (idents s) \<and> fst (idents s ! p) = Producer
      \<and> \<not> snd (snd (idents s ! p))"
    unfolding hub_inv_def by (rule shape_invD1)
  then show "p < length (pcs s)" by simp
  with * show "role (pcs s ! p) = Producer" and "\<not> isClosed (pcs s ! p)"
    by (simp_all add: idents_nth)
qed

lemma hub_inv_only_sender:
  assumes "hub_inv s" and "p < length (pcs s)" and "role (pcs s ! p) = Producer"
    and "\<not> isClosed (pcs s ! p)"
  shows "senderPeerConnection s = Some p"
proof -
  from assms(2-4) have "p < length (idents s)" "fst (idents s ! p) = Producer"
    "\<not> snd (snd (idents s ! p))"
    by (simp_all add: idents_nth)
  with assms(1) show ?thesis
    unfolding hub_inv_def by (rule shape_invD2)
qed

lemma hub_inv_receiver:
  assumes "hub_inv s" and "receiverPeerConnections s c = Some q"
  shows "q < length (pcs s)" and "role (pcs s ! q) = Consumer" and "owner (pcs s ! q) = c"
    and "\<not> isClosed (pcs s ! q)"
proof -
  from assms have *: "q < length (idents s) \<and> idents s ! q = (Consumer, c, False)"
    unfolding hub_inv_def by (rule shape_invD3)
  then show "q < length (pcs s)" by simp
  with * show "role (pcs s ! q) = Consumer" and "owner (pcs s ! q) = c"
    and "\<not> isClosed (pcs s ! q)"
    by (simp_all add: idents_nth)
qed

lemma hub_inv_openProducers:
  assumes "hub_inv s"
  shows "openProducers s = (case senderPeerConnection s of None \<Rightarrow> [] | Some p \<Rightarrow> [p])"
proof (cases "senderPeerConnection s")
  case None
  have "\<not> (role (pcs s ! p) = Producer \<and> isClosed (pcs s ! p) = False)"
    if "p < length (pcs s)" for p
    using hub_inv_only_sender [OF assms that] None by auto
  then have "openProducers s = []"
    by (simp add: openProducers_def filter_empty_conv)
  with None show ?thesis by simp
next
  case (Some p)
  note sender = hub_inv_sender [OF assms Some]
  have "openProducers s = [p]"
    unfolding openProducers_def
  proof (rule filter_upt_unique)
    show "p < length (pcs s)" by (rule sender)
    show "role (pcs s ! p) = Producer \<and> isClosed (pcs s ! p) = False"
      using sender by simp
    fix q assume "q < length (pcs s)"
      and "role (pcs s ! q) = Producer \<and> isClosed (pcs s ! q) = False"
    then have "senderPeerConnection s = Some q"
      using hub_inv_only_sender [OF assms, of q] by simp
    with Some show "q = p" by simp
  qed
  with Some show ?thesis by simp
qed

lemma hub_inv_reachable: "hub_inv (run es (initial w ts))"
  by (rule inv_run) (rule inv_initial)

lemma handleOffer_replaces:
  assumes "wrtc s" and "senderPeerConnection s = Some p" and "p < length (pcs s)"
  shows "trace (handleOffer c s) = trace s @ [PcClosed p, PcCreated Producer (length (pcs s))]"
    and "isClosed (pcs (handleOffer c s) ! p)"
    and "senderPeerConnection (handleOffer c s) = Some (length (pcs s))"
    and "senderClientId (handleOffer c s) = Some c"
  using assms
  by (simp_all add: handleOffer_def Let_def close_def construct_def nth_append)

text \<open>
  Claim C1. In every state the hub reaches from its start, by any sequence of
  events, the open producer connections are exactly the one
  \<^verbatim>\<open>senderPeerConnection\<close> refers to, so there is never more than one. When an offer
  arrives while a producer connection exists, \<^verbatim>\<open>handleOffer\<close> first closes that
  connection and then constructs the new one (the trace grows by the close followed
  by the construction), the old connection is closed in the resulting state, and the
  new connection is the only open producer connection.
\<close>

theorem single_open_producer:
  "(let s = run es (initial w ts); s' = step (OfferReceived c) s
    in length (openProducers s) \<le> 1
       \<and> openProducers s = (case senderPeerConnection s of None \<Rightarrow> [] | Some p \<Rightarrow> [p])
       \<and> (wrtc s \<and> senderPeerConnection s = Some p \<longrightarrow>
            trace s' = trace s @ [PcClosed p, PcCreated Producer (length (pcs s))]
            \<and> isClosed (pcs s' ! p)
            \<and> senderPeerConnection s' = Some (length (pcs s))
            \<and> openProducers s' = [length (pcs s)]))"
proof -
  define s where "s = run es (initial w ts)"
  define s' where "s' = step (OfferReceived c) s"
  have inv: "hub_inv s"
    unfolding s_def by (rule hub_inv_reachable)
  then have inv': "hub_inv s'"
    unfolding s'_def by (rule inv_step)
  have one: "openProducers s = (case senderPeerConnection s of None \<Rightarrow> [] | Some p \<Rightarrow> [p])"
    using inv by (rule hub_inv_openProducers)
  then have le: "length (openProducers s) \<le> 1"
    by (simp split: option.splits)
  have offer: "trace s' = trace s @ [PcClosed p, PcCreated Producer (length (pcs s))]
      \<and> isClosed (pcs s' ! p)
      \<and> senderPeerConnection s' = Some (length (pcs s))
      \<and> openProducers s' = [length (pcs s)]"
    if "wrtc s" and sp: "senderPeerConnection s = Some p"
  proof -
    have lt: "p < length (pcs s)"
      using hub_inv_sender(1) [OF inv sp] .
    note r = handleOffer_replaces [OF that lt, of c]
    have "openProducers s' = [length (pcs s)]"
      using hub_inv_openProducers [OF inv'] r(3) by (simp add: s'_def)
    with r show ?thesis
      by (simp add: s'_def)
  qed
  from le one offer show ?thesis
    unfolding s_def [symmetric] s'_def [symmetric] Let_def by blast
qed

theorem single_open_producer_witness:
  "(let s = run [ClientConnected ''P'', OfferReceived ''P''] hub0; s' = step (OfferReceived ''Q'') s
    in wrtc s \<and> senderPeerConnection s = Some 0
       \<and> openProducers s = [0]
       \<and> trace s' = trace s @ [PcClosed 0, PcCreated Producer 1]
       \<and> isClosed (pcs s' ! 0)
       \<and> openProducers s' = [1])"
proof -
  have "wrtc (run [ClientConnected ''P'', OfferReceived ''P''] hub0)
      \<and> senderPeerConnection (run [ClientConnected ''P'', OfferReceived ''P''] hub0) = Some 0
      \<and> length (pcs (run [ClientConnected ''P'', OfferReceived ''P''] hub0)) = 1"
    by (simp add: hub_defs Let_def)
  with single_open_producer [of "[ClientConnected ''P'', OfferReceived ''P'']" True tracks0 "''Q''" 0]
  show ?thesis
    by (simp add: Let_def hub0_def)
qed

subsection \<open>Admission on connect\<close>

text \<open>
  Claim C10. \<^verbatim>\<open>handleConnection\<close> alone, with no \<^verbatim>\<open>connection-accept\<close> message from the
  client, registers the client and emits \<^verbatim>\<open>start-webrtc\<close> to it; when a received stream
  exists it then sets a timer of 500 ms for \<^verbatim>\<open>createReceiverConnection\<close> of that
  client, and otherwise sets none. Nothing else of the hub changes: the consumer
  connection is not created in this step.
\<close>

theorem connection_admitted_automatically:
  "(let s' = step (ClientConnected c) s
    in c \<in> set (connections s')
       \<and> trace s' = trace s @ Emit c StartWebrtc #
            (if receivedStream s = None then [] else [SetTimeout (CreateReceiver c) 500])
       \<and> receiverPeerConnections s' = receiverPeerConnections s
       \<and> senderPeerConnection s' = senderPeerConnection s
       \<and> receivedStream s' = receivedStream s
       \<and> pcs s' = pcs s)"
  by (simp add: handleConnection_def handleConnectionAccept_def Let_def)

theorem connection_admitted_automatically_witness:
  "(let s = run producing hub0; s' = step (ClientConnected ''C'') s
    in receivedStream s = Some [''t1'']
       \<and> ''C'' \<in> set (connections s')
       \<and> trace s' = trace s @ [Emit ''C'' StartWebrtc, SetTimeout (CreateReceiver ''C'') 500]
       \<and> receiverPeerConnections s' ''C'' = None)"
proof -
  have "receivedStream (run producing hub0) = Some [''t1'']"
    and "receiverPeerConnections (run producing hub0) ''C'' = None"
    by (simp_all add: hub_defs Let_def)
  with connection_admitted_automatically [of "''C''" "run producing hub0"]
  show ?thesis
    by (simp add: Let_def)
qed

subsection \<open>Consumer connections: replacement and creation\<close>

lemma createReceiverConnection_trace_replacing:
  assumes "wrtc s" and "c \<in> set (connections s)" and "receiverPeerConnections s c = Some old"
  shows "\<exists>rest. trace (createReceiverConnection c ok s) =
           trace s @ PcClosed old # PcCreated Consumer (length (pcs s)) # rest"
  using assms
  by (simp add: createReceiverConnection_def Let_def split: option.splits)

lemma createReceiverConnection_new_open:
  assumes "wrtc s" and "c \<in> set (connections s)"
  shows "length (pcs (createReceiverConnection c ok s)) = Suc (length (pcs s))"
    and "\<not> isClosed (pcs (createReceiverConnection c ok s) ! length (pcs s))"
    and "role (pcs (createReceiverConnection c ok s) ! length (pcs s)) = Consumer"
    and "owner (pcs (createReceiverConnection c ok s) ! length (pcs s)) = c"
proof -
  have ids: "idents (createReceiverConnection c ok s) =
      (case receiverPeerConnections s c of
         Some q \<Rightarrow> (idents s)[q := closeIdent (idents s ! q)]
       | None \<Rightarrow> idents s) @ [(Consumer, c, False)]"
    using assms by (simp add: createReceiverConnection_idents)
  then have "length (idents (createReceiverConnection c ok s)) = Suc (length (pcs s))"
    by (simp split: option.splits)
  then show len: "length (pcs (createReceiverConnection c ok s)) = Suc (length (pcs s))"
    by simp
  have "idents (createReceiverConnection c ok s) ! length (pcs s) = (Consumer, c, False)"
    using ids by (simp add: nth_append split: option.splits)
  with len show "\<not> isClosed (pcs (createReceiverConnection c ok s) ! length (pcs s))"
    and "role (pcs (createReceiverConnection c ok s) ! length (pcs s)) = Consumer"
    and "owner (pcs (createReceiverConnection c ok s) ! length (pcs s)) = c"
    by (simp_all add: idents_nth)
qed

lemma createReceiverConnection_closed:
  assumes "wrtc s" and "c \<in> set (connections s)" and "receiverPeerConnections s c = Some old"
    and "old < length (pcs s)"
  shows "isClosed (pcs (createReceiverConnection c ok s) ! old)"
proof -
  have "idents (createReceiverConnection c ok s) ! old = closeIdent (idents s ! old)"
    using assms by (simp add: createReceiverConnection_idents nth_append)
  moreover have "old < length (pcs (createReceiverConnection c ok s))"
    using assms createReceiverConnection_new_open(1) [of s c ok] by simp
  ultimately show ?thesis
    by (simp add: idents_nth closeIdent_def)
qed

text \<open>
  Claim C9. In every reachable state each entry of the consumer map points to an
  open consumer connection constructed for that very client, so no connection is
  registered for two clients and no closed connection is registered; the map itself
  holds one reference per client. Creating a consumer connection for a client that
  already has one closes the old connection first, then constructs the new one (the
  trace grows by the close, then the construction), and the client's entry afterwards
  is the new, open connection; the entries of the other clients are untouched.
\<close>

theorem consumer_connection_replaced:
  "(let s = run es (initial w ts); s' = createReceiverConnection c ok s
    in (\<forall>d q. receiverPeerConnections s d = Some q \<longrightarrow>
          q < length (pcs s) \<and> role (pcs s ! q) = Consumer \<and> owner (pcs s ! q) = d
          \<and> \<not> isClosed (pcs s ! q))
       \<and> (wrtc s \<and> c \<in> set (connections s) \<and> receiverPeerConnections s c = Some old \<longrightarrow>
            (\<exists>rest. trace s' = trace s @ PcClosed old # PcCreated Consumer (length (pcs s)) # rest)
            \<and> isClosed (pcs s' ! old)
            \<and> receiverPeerConnections s' c = Some (length (pcs s))
            \<and> old \<noteq> length (pcs s)
            \<and> \<not> isClosed (pcs s' ! length (pcs s))
            \<and> (\<forall>d. d \<noteq> c \<longrightarrow> receiverPeerConnections s' d = receiverPeerConnections s d)))"
proof -
  define s where "s = run es (initial w ts)"
  have inv: "hub_inv s"
    unfolding s_def by (rule hub_inv_reachable)
  have reg: "\<forall>d q. receiverPeerConnections s d = Some q \<longrightarrow>
          q < length (pcs s) \<and> role (pcs s ! q) = Consumer \<and> owner (pcs s ! q) = d
          \<and> \<not> isClosed (pcs s ! q)"
    using hub_inv_receiver [OF inv] by blast
  have repl: "(\<exists>rest. trace (createReceiverConnection c ok s) =
                 trace s @ PcClosed old # PcCreated Consumer (length (pcs s)) # rest)
            \<and> isClosed (pcs (createReceiverConnection c ok s) ! old)
            \<and> receiverPeerConnections (createReceiverConnection c ok s) c = Some (length (pcs s))
            \<and> old \<noteq> length (pcs s)
            \<and> \<not> isClosed (pcs (createReceiverConnection c ok s) ! length (pcs s))
            \<and> (\<forall>d. d \<noteq> c \<longrightarrow> receiverPeerConnections (createReceiverConnection c ok s) d
                  = receiverPeerConnections s d)"
    if w: "wrtc s" and c: "c \<in> set (connections s)" and old: "receiverPeerConnections s c = Some old"
  proof -
    have lt: "old < length (pcs s)"
      using hub_inv_receiver(1) [OF inv old] .
    from createReceiverConnection_trace_replacing [OF w c old]
      createReceiverConnection_closed [OF w c old lt]
      createReceiverConnection_new_open(2) [OF w c] lt w c
    show ?thesis
      by (simp add: createReceiverConnection_map)
  qed
  from reg repl show ?thesis
    unfolding s_def [symmetric] Let_def by blast
qed

theorem consumer_connection_replaced_witness:
  "(let s = run streaming hub0; s' = createReceiverConnection ''C'' True s
    in wrtc s \<and> ''C'' \<in> set (connections s) \<and> receiverPeerConnections s ''C'' = Some 1
       \<and> isClosed (pcs s' ! 1)
       \<and> receiverPeerConnections s' ''C'' = Some 2
       \<and> isClosed (pcs s' ! 2) = False)"
proof -
  have "wrtc (run streaming hub0) \<and> ''C'' \<in> set (connections (run streaming hub0))
      \<and> receiverPeerConnections (run streaming hub0) ''C'' = Some 1
      \<and> length (pcs (run streaming hub0)) = 2"
    by (simp add: hub_defs Let_def)
  with consumer_connection_replaced [of streaming True tracks0 "''C''" True 1]
  show ?thesis
    by (simp add: Let_def hub0_def)
qed

subsection \<open>Disconnects\<close>

lemma close_nth_other: "q \<noteq> p \<Longrightarrow> pcs (close p s) ! q = pcs s ! q"
  by (simp add: close_def)

lemma close_nth_same: "p < length (pcs s) \<Longrightarrow> isClosed (pcs (close p s) ! p)"
  by (simp add: close_def)

lemma handleDisconnect_map:
  "receiverPeerConnections (handleDisconnect c s) = (receiverPeerConnections s)(c := None)"
  by (auto simp: handleDisconnect_def Let_def split: option.splits)

lemma handleDisconnect_producer:
  assumes "senderClientId s = Some c" and "senderPeerConnection s = Some p"
  shows "senderPeerConnection (handleDisconnect c s) = None"
    and "senderClientId (handleDisconnect c s) = None"
    and "receivedStream (handleDisconnect c s) = None"
  using assms by (simp_all add: handleDisconnect_def Let_def split: option.splits)

lemma handleDisconnect_not_producer:
  assumes "senderClientId s \<noteq> Some c"
  shows "senderPeerConnection (handleDisconnect c s) = senderPeerConnection s"
    and "senderClientId (handleDisconnect c s) = senderClientId s"
    and "receivedStream (handleDisconnect c s) = receivedStream s"
  using assms by (simp_all add: handleDisconnect_def Let_def split: option.splits)

lemma handleDisconnect_pcs:
  "pcs (handleDisconnect c s) =
     (let s2 = (case senderPeerConnection s of
                  Some p \<Rightarrow> if senderClientId s = Some c then close p s else s
                | None \<Rightarrow> s)
      in case receiverPeerConnections s c of
           Some q \<Rightarrow> pcs (close q s2)
         | None \<Rightarrow> pcs s2)"
  by (simp add: handleDisconnect_def Let_def close_def split: option.splits)

lemma handleDisconnect_others_untouched:
  assumes "senderClientId s = Some c \<longrightarrow> senderPeerConnection s \<noteq> Some q"
    and "receiverPeerConnections s c \<noteq> Some q"
  shows "pcs (handleDisconnect c s) ! q = pcs s ! q"
  using assms
  by (auto simp: handleDisconnect_pcs Let_def close_nth_other split: option.splits)

lemma handleDisconnect_closes_producer:
  assumes "senderClientId s = Some c" and "senderPeerConnection s = Some p"
    and "p < length (pcs s)"
  shows "isClosed (pcs (handleDisconnect c s) ! p)"
  using assms
  by (auto simp: handleDisconnect_pcs Let_def close_def nth_list_update split: option.splits)

lemma handleDisconnect_closes_consumer:
  assumes "receiverPeerConnections s c = Some q" and "q < length (pcs s)"
  shows "isClosed (pcs (handleDisconnect c s) ! q)"
  using assms
  by (auto simp: handleDisconnect_pcs Let_def close_def nth_list_update split: option.splits)

text \<open>
  Claim C7, as the code has it. In every reachable state, when a client \<open>c\<close>
  disconnects: the consumer session of any other client \<open>d\<close> stays registered, open
  and untouched;
  the disconnecting client's own entry in the consumer map, if it has one, is closed
  and removed, whether or not that client is the producer; if the client is the
  producer of an existing producer session, that session is closed and the received
  stream cleared; if the client is not the producer, the producer reference, the
  producer connection and the received stream are unchanged.
\<close>

theorem disconnect_touches_own_sessions_only:
  "(let s = run es (initial w ts); s' = step (ClientDisconnected c) s
    in (d \<noteq> c \<and> receiverPeerConnections s d = Some q \<longrightarrow>
          receiverPeerConnections s' d = Some q \<and> pcs s' ! q = pcs s ! q
          \<and> \<not> isClosed (pcs s' ! q))
       \<and> receiverPeerConnections s' c = None
       \<and> (receiverPeerConnections s c = Some q \<longrightarrow> isClosed (pcs s' ! q))
       \<and> (senderClientId s = Some c \<and> senderPeerConnection s = Some p \<longrightarrow>
             senderPeerConnection s' = None \<and> receivedStream s' = None
             \<and> isClosed (pcs s' ! p))
       \<and> (senderClientId s \<noteq> Some c \<longrightarrow>
             senderPeerConnection s' = senderPeerConnection s
             \<and> receivedStream s' = receivedStream s
             \<and> (senderPeerConnection s = Some p \<longrightarrow> pcs s' ! p = pcs s ! p)))"
proof -
  define s where "s = run es (initial w ts)"
  have inv: "hub_inv s"
    unfolding s_def by (rule hub_inv_reachable)
  have others: "receiverPeerConnections (handleDisconnect c s) d = Some q
      \<and> pcs (handleDisconnect c s) ! q = pcs s ! q
      \<and> \<not> isClosed (pcs (handleDisconnect c s) ! q)"
    if "d \<noteq> c" and d: "receiverPeerConnections s d = Some q" for d q
  proof -
    note q = hub_inv_receiver [OF inv d]
    have "senderPeerConnection s \<noteq> Some q"
      using hub_inv_sender(2) [OF inv, of q] q(2) by auto
    moreover have "receiverPeerConnections s c \<noteq> Some q"
      using hub_inv_receiver(3) [OF inv, of c q] q(3) that(1) by auto
    ultimately have "pcs (handleDisconnect c s) ! q = pcs s ! q"
      by (simp add: handleDisconnect_others_untouched)
    with q(4) d that(1) show ?thesis
      by (simp add: handleDisconnect_map)
  qed
  have own: "isClosed (pcs (handleDisconnect c s) ! q)"
    if "receiverPeerConnections s c = Some q" for q
    using handleDisconnect_closes_consumer [OF that] hub_inv_receiver(1) [OF inv that] by simp
  have prod: "senderPeerConnection (handleDisconnect c s) = None
      \<and> receivedStream (handleDisconnect c s) = None
      \<and> isClosed (pcs (handleDisconnect c s) ! p)"
    if "senderClientId s = Some c" and "senderPeerConnection s = Some p" for p
    using handleDisconnect_producer [OF that] handleDisconnect_closes_producer [OF that]
      hub_inv_sender(1) [OF inv that(2)] by simp
  have notprod: "senderPeerConnection (handleDisconnect c s) = senderPeerConnection s
      \<and> receivedStream (handleDisconnect c s) = receivedStream s
      \<and> (\<forall>p. senderPeerConnection s = Some p \<longrightarrow> pcs (handleDisconnect c s) ! p = pcs s ! p)"
    if np: "senderClientId s \<noteq> Some c"
  proof -
    have "pcs (handleDisconnect c s) ! p = pcs s ! p" if sp: "senderPeerConnection s = Some p" for p
    proof -
      have "receiverPeerConnections s c \<noteq> Some p"
        using hub_inv_receiver(2) [OF inv, of c p] hub_inv_sender(2) [OF inv sp] by auto
      with np show ?thesis
        by (simp add: handleDisconnect_others_untouched)
    qed
    with handleDisconnect_not_producer [OF np] show ?thesis
      by simp
  qed
  from others [of d q] own [of q] prod [of p] notprod show ?thesis
    unfolding s_def [symmetric] Let_def
    by (auto simp: handleDisconnect_map)
qed

theorem disconnect_touches_own_sessions_only_witness:
  "(let s = run streaming hub0; s' = step (ClientDisconnected ''P'') s
    in receiverPeerConnections s ''C'' = Some 1
       \<and> senderClientId s = Some ''P'' \<and> senderPeerConnection s = Some 0
       \<and> receiverPeerConnections s' ''C'' = Some 1
       \<and> pcs s' ! 1 = pcs s ! 1
       \<and> isClosed (pcs s' ! 1) = False
       \<and> senderPeerConnection s' = None \<and> receivedStream s' = None
       \<and> isClosed (pcs s' ! 0))"
proof -
  have "receiverPeerConnections (run streaming hub0) ''C'' = Some 1
      \<and> senderClientId (run streaming hub0) = Some ''P''
      \<and> senderPeerConnection (run streaming hub0) = Some 0"
    by (simp add: hub_defs Let_def)
  with disconnect_touches_own_sessions_only
    [where es = streaming and w = True and ts = tracks0 and c = "''P''" and d = "''C''"
       and q = 1 and p = 0]
  show ?thesis
    by (auto simp: Let_def hub0_def)
qed

text \<open>
  Claim C7 as stated fails: after \<open>takeover\<close> the client \<open>C\<close> is the producer and
  still has its consumer connection (reference 1) registered and open; its disconnect
  removes that entry from the consumer map and closes the connection.
\<close>

theorem producer_disconnect_changes_consumer_map:
  "senderClientId (run takeover hub0) = Some ''C''
   \<and> senderPeerConnection (run takeover hub0) = Some 2
   \<and> receiverPeerConnections (run takeover hub0) ''C'' = Some 1
   \<and> isClosed (pcs (run takeover hub0) ! 1) = False
   \<and> receiverPeerConnections (step (ClientDisconnected ''C'') (run takeover hub0)) ''C'' = None
   \<and> isClosed (pcs (step (ClientDisconnected ''C'') (run takeover hub0)) ! 1)"
  by (simp add: hub_defs Let_def)

subsection \<open>Candidates arriving at the hub\<close>

text \<open>
  Claim C3 at a concrete execution. In the running session the producer is \<open>P\<close>
  (connection 0) and the consumer \<open>C\<close> has its own session (connection 1) with the
  remote description set. A candidate sent by \<open>C\<close> is added to the producer's
  connection and not to the connection of \<open>C\<close>: \<^verbatim>\<open>handleIceCandidate\<close> tests
  \<^verbatim>\<open>this.senderPeerConnection\<close> and its remote description, never the client id.
\<close>

theorem consumer_candidate_lands_on_producer:
  "senderClientId (run streaming hub0) = Some ''P''
   \<and> senderPeerConnection (run streaming hub0) = Some 0
   \<and> receiverPeerConnections (run streaming hub0) ''C'' = Some 1
   \<and> remoteDescription (pcs (run streaming hub0) ! 1)
   \<and> role (pcs (run consumerCandidate hub0) ! 0) = Producer
   \<and> owner (pcs (run consumerCandidate hub0) ! 0) = ''P''
   \<and> addedCandidates (pcs (run consumerCandidate hub0) ! 0) = [''cand'']
   \<and> addedCandidates (pcs (run consumerCandidate hub0) ! 1) = []"
  by (simp add: hub_defs Let_def)

lemma handleIceCandidate_cases:
  "handleIceCandidate c cand ok s = emit [Notice WrtcNotLoaded] s
   \<or> handleIceCandidate c cand ok s = emit [Notice (NoPeerConnectionForCandidate c)] s
   \<or> handleIceCandidate c cand ok s = emit [Notice (CandidateFailed c)] s
   \<or> (\<exists>p. remoteDescription (pcs s ! p) \<and> handleIceCandidate c cand ok s = addIceCandidate p cand s)"
  by (auto simp: handleIceCandidate_def tryAddIceCandidate_def Let_def split: option.splits)

lemma handleIceCandidate_dropped:
  assumes "wrtc s"
    and "senderPeerConnection s = Some p \<longrightarrow> \<not> remoteDescription (pcs s ! p)"
    and "senderPeerConnection s = None \<or> senderPeerConnection s = Some p"
    and "receiverPeerConnections s c = Some q \<longrightarrow> \<not> remoteDescription (pcs s ! q)"
    and "receiverPeerConnections s c = None \<or> receiverPeerConnections s c = Some q"
  shows "handleIceCandidate c cand ok s = emit [Notice (NoPeerConnectionForCandidate c)] s"
  using assms
  by (auto simp: handleIceCandidate_def Let_def split: option.splits)




subsection \<open>Consumer sessions and track liveness\<close>

lemma nth_update_field:
  "f y = f (xs ! p) \<Longrightarrow> f (xs[p := y] ! k) = f (xs ! k)"
proof (cases "p < length xs")
  case True
  assume "f y = f (xs ! p)"
  with True show ?thesis
    by (cases "k = p") simp_all
next
  case False
  then have "length xs \<le> p" by simp
  then have "xs[p := y] = xs" by (rule list_update_beyond)
  then show ?thesis by simp
qed

lemma senders_frame [simp]:
  "senders (pcs (setLocalDescription p s) ! k) = senders (pcs s ! k)"
  "senders (pcs (setRemoteDescription p s) ! k) = senders (pcs s ! k)"
  "senders (pcs (addIceCandidate p x s) ! k) = senders (pcs s ! k)"
  by (simp_all add: setLocalDescription_def setRemoteDescription_def addIceCandidate_def
      nth_update_field)

lemma senders_addTracks:
  "p < length (pcs s) \<Longrightarrow> senders (pcs (addTracks p ts s) ! p) = senders (pcs s ! p) @ ts"
  by (simp add: addTracks_def)

lemma senders_new:
  "length (pcs s1) = n \<Longrightarrow> senders (pcs (construct r c s1) ! n) = []"
  by (auto simp: newPeer_def)

lemma createReceiverConnection_senders:
  assumes "wrtc s" and "c \<in> set (connections s)"
  shows "senders (pcs (createReceiverConnection c ok s) ! length (pcs s)) =
           (case receivedStream s of None \<Rightarrow> [] | Some ts \<Rightarrow> filter (isLive s) ts)"
proof -
  define s1 where "s1 = (case receiverPeerConnections s c of
                      Some existingPC \<Rightarrow> close existingPC s
                    | None \<Rightarrow> s)"
  have s1: "length (pcs s1) = length (pcs s)" "receivedStream s1 = receivedStream s"
    "isLive s1 = isLive s"
    by (simp_all add: s1_def split: option.splits)
  have new: "senders (pcs (construct Consumer c s1) ! length (pcs s)) = []"
    using s1(1) by (rule senders_new)
  have lt: "length (pcs s) < length (pcs (construct Consumer c s1))"
    by (simp add: s1)
  have "createReceiverConnection c ok s =
     (let receiverPC = length (pcs s1);
          s2 = construct Consumer c s1;
          s3 = (case receivedStream s2 of
                  Some ts \<Rightarrow>
                    let liveTracks = filter (isLive s2) ts in
                    if liveTracks = [] then
                      emit [Notice (NoLiveTrackInStream c),
                            SetInterval (WaitReceiverLive receiverPC) 100] s2
                    else addTracks receiverPC (filter (isLive s2) liveTracks) s2
                | None \<Rightarrow> emit [Notice (NoStreamToSend c)] s2);
          s4 = s3\<lparr>receiverPeerConnections :=
                     (receiverPeerConnections s3)(c \<mapsto> receiverPC)\<rparr>
      in if ok then emit [Emit c WebrtcOffer] (setLocalDescription receiverPC s4)
         else emit [Notice (ReceiverFailed c)] s4)"
    using assms unfolding createReceiverConnection_def s1_def Let_def by simp
  then show ?thesis
    using new senders_addTracks [OF lt]
    by (simp add: Let_def s1 split: option.splits)
qed

lemma createReceiverConnection_trace_no_live:
  assumes "wrtc s" and "c \<in> set (connections s)" and "receivedStream s = Some ts"
    and "filter (isLive s) ts = []"
  shows "SetInterval (WaitReceiverLive (length (pcs s))) 100
           \<in> set (trace (createReceiverConnection c ok s))"
  using assms
  by (simp add: createReceiverConnection_def Let_def split: option.splits)

lemma createReceiverConnection_offer:
  assumes "wrtc s" and "c \<in> set (connections s)"
  shows "Emit c WebrtcOffer \<in> set (trace (createReceiverConnection c True s))"
  using assms
  by (simp add: createReceiverConnection_def Let_def split: option.splits)

subsection \<open>Only live tracks are bound to a connection\<close>

lemma bound_live_refl: "bound_live live old old"
  by (simp add: bound_live_def)

lemma bound_live_append:
  assumes "bound_live live old new" and "\<And>t. t \<in> set ts \<Longrightarrow> live t"
  shows "bound_live live old (new @ [ts])"
  unfolding bound_live_def
proof (intro conjI allI impI)
  from assms(1) show "length old \<le> length (new @ [ts])"
    by (simp add: bound_live_def)
next
  fix q t assume qt: "q < length (new @ [ts]) \<and> t \<in> set ((new @ [ts]) ! q)"
  show "(q < length old \<and> t \<in> set (old ! q)) \<or> live t"
  proof (cases "q < length new")
    case True
    with qt have "t \<in> set (new ! q)" by (simp add: nth_append)
    with assms(1) True show ?thesis
      unfolding bound_live_def by blast
  next
    case False
    with qt have "q = length new" by simp
    with qt have "t \<in> set ts" by simp
    then show ?thesis by (simp add: assms(2))
  qed
qed

lemma bound_live_add:
  assumes "bound_live live old new" and "\<And>t. t \<in> set ts \<Longrightarrow> live t"
  shows "bound_live live old (new[p := new ! p @ ts])"
  unfolding bound_live_def
proof (intro conjI allI impI)
  from assms(1) show "length old \<le> length (new[p := new ! p @ ts])"
    by (simp add: bound_live_def)
next
  fix q t
  assume qt: "q < length (new[p := new ! p @ ts]) \<and> t \<in> set (new[p := new ! p @ ts] ! q)"
  then have q: "q < length new" by simp
  show "(q < length old \<and> t \<in> set (old ! q)) \<or> live t"
  proof (cases "q = p")
    case True
    with qt q have "t \<in> set (new ! q) \<or> t \<in> set ts" by auto
    then show ?thesis
    proof
      assume "t \<in> set (new ! q)"
      with assms(1) q show ?thesis
        unfolding bound_live_def by blast
    next
      assume "t \<in> set ts"
      then show ?thesis by (simp add: assms(2))
    qed
  next
    case False
    with qt have "t \<in> set (new ! q)" by simp
    with assms(1) q show ?thesis
      unfolding bound_live_def by blast
  qed
qed

lemma length_senderLists [simp]: "length (senderLists s) = length (pcs s)"
  by (simp add: senderLists_def)

lemma senderLists_nth: "q < length (pcs s) \<Longrightarrow> senderLists s ! q = senders (pcs s ! q)"
  by (simp add: senderLists_def)

lemma senderLists_simps [simp]:
  "senderLists (emit es s) = senderLists s"
  "senderLists (construct r c s) = senderLists s @ [Nil]"
  "senderLists (close p s) = senderLists s"
  "senderLists (setRemoteDescription p s) = senderLists s"
  "senderLists (setLocalDescription p s) = senderLists s"
  "senderLists (addIceCandidate p x s) = senderLists s"
  "senderLists (promote m t s) = senderLists s"
  by (simp_all add: senderLists_def emit_def construct_def newPeer_def close_def
      setRemoteDescription_def setLocalDescription_def addIceCandidate_def
      promote_def map_update_same)

lemma senderLists_addTracks:
  "senderLists (addTracks p ts s) = (senderLists s)[p := senderLists s ! p @ ts]"
proof (cases "p < length (pcs s)")
  case True
  then show ?thesis
    by (simp add: senderLists_def addTracks_def map_update)
next
  case False
  then have "length (pcs s) \<le> p" by simp
  then have "(pcs s)[p := x] = pcs s" and "(map senders (pcs s))[p := y] = map senders (pcs s)"
    for x y
    by (simp_all add: list_update_beyond)
  then show ?thesis
    by (simp add: senderLists_def addTracks_def)
qed

lemma senderLists_updates [simp]:
  "senderLists (s\<lparr>connections := a\<rparr>) = senderLists s"
  "senderLists (s\<lparr>senderPeerConnection := b\<rparr>) = senderLists s"
  "senderLists (s\<lparr>senderClientId := c\<rparr>) = senderLists s"
  "senderLists (s\<lparr>receiverPeerConnections := d\<rparr>) = senderLists s"
  "senderLists (s\<lparr>receivedStream := e\<rparr>) = senderLists s"
  "senderLists (s\<lparr>tracks := f\<rparr>) = senderLists s"
  "senderLists (s\<lparr>currentTrack := g\<rparr>) = senderLists s"
  "senderLists (s\<lparr>trace := h\<rparr>) = senderLists s"
  by (simp_all add: senderLists_def)

lemma isLive_updates [simp]:
  "isLive (s\<lparr>connections := a\<rparr>) = isLive s"
  "isLive (s\<lparr>senderPeerConnection := b\<rparr>) = isLive s"
  "isLive (s\<lparr>senderClientId := c\<rparr>) = isLive s"
  "isLive (s\<lparr>receiverPeerConnections := d\<rparr>) = isLive s"
  "isLive (s\<lparr>receivedStream := e\<rparr>) = isLive s"
  "isLive (s\<lparr>pcs := f\<rparr>) = isLive s"
  "isLive (s\<lparr>currentTrack := g\<rparr>) = isLive s"
  "isLive (s\<lparr>trace := h\<rparr>) = isLive s"
  "isLive (s\<lparr>tracks := (tracks s')(t := (tracks s' t)\<lparr>onended := x\<rparr>)\<rparr>) = isLive s'"
  by (simp_all add: isLive_def fun_eq_iff)

lemma createReceiverConnection_senderLists:
  "senderLists (createReceiverConnection c ok s) =
     (if wrtc s \<and> c \<in> set (connections s)
      then senderLists s @
             [case receivedStream s of None \<Rightarrow> [] | Some ts \<Rightarrow> filter (isLive s) ts]
      else senderLists s)"
proof (cases "wrtc s \<and> c \<in> set (connections s)")
  case False
  then have "createReceiverConnection c ok s = emit [Notice (ClientNotFound c)] s
      \<or> createReceiverConnection c ok s = emit [Notice WrtcNotLoaded] s"
    by (auto simp: createReceiverConnection_def)
  with False show ?thesis by auto
next
  case True
  define s1 where "s1 = (case receiverPeerConnections s c of
                      Some existingPC \<Rightarrow> close existingPC s
                    | None \<Rightarrow> s)"
  have s1: "length (pcs s1) = length (pcs s)" "receivedStream s1 = receivedStream s"
    "isLive s1 = isLive s" "senderLists s1 = senderLists s"
    by (simp_all add: s1_def split: option.splits)
  have upd: "(senderLists s @ [Nil])[length (pcs s) := (senderLists s @ [Nil]) ! length (pcs s) @ ts]
      = senderLists s @ [ts]" for ts
    using list_update_length [of "senderLists s" "[]" "[]" ts]
      nth_append_length [of "senderLists s" "[]" "[]"] by simp
  have "createReceiverConnection c ok s =
     (let receiverPC = length (pcs s1);
          s2 = construct Consumer c s1;
          s3 = (case receivedStream s2 of
                  Some ts \<Rightarrow>
                    let liveTracks = filter (isLive s2) ts in
                    if liveTracks = [] then
                      emit [Notice (NoLiveTrackInStream c),
                            SetInterval (WaitReceiverLive receiverPC) 100] s2
                    else addTracks receiverPC (filter (isLive s2) liveTracks) s2
                | None \<Rightarrow> emit [Notice (NoStreamToSend c)] s2);
          s4 = s3\<lparr>receiverPeerConnections :=
                     (receiverPeerConnections s3)(c \<mapsto> receiverPC)\<rparr>
      in if ok then emit [Emit c WebrtcOffer] (setLocalDescription receiverPC s4)
         else emit [Notice (ReceiverFailed c)] s4)"
    using True unfolding createReceiverConnection_def s1_def Let_def by simp
  then show ?thesis
    using True
    by (simp add: Let_def s1 senderLists_addTracks upd split: option.splits)
qed

lemma createReceiverConnection_isLive [simp]:
  "isLive (createReceiverConnection c ok s) = isLive s"
  by (simp add: createReceiverConnection_def Let_def split: option.splits)

lemma bl_createReceiverConnection:
  assumes "bound_live (isLive s) old (senderLists s)"
  shows "bound_live (isLive s) old (senderLists (createReceiverConnection c ok s))"
proof (cases "wrtc s \<and> c \<in> set (connections s)")
  case False
  then have "senderLists (createReceiverConnection c ok s) = senderLists s"
    by (auto simp: createReceiverConnection_senderLists)
  with assms show ?thesis
    by simp
next
  case True
  have "bound_live (isLive s) old
      (senderLists s @ [case receivedStream s of None \<Rightarrow> [] | Some ts \<Rightarrow> filter (isLive s) ts])"
    using assms by (rule bound_live_append) (auto split: option.splits)
  with True show ?thesis
    by (simp add: createReceiverConnection_senderLists)
qed

lemma waitReceiverLive_senderLists:
  "senderLists (fst (waitReceiverLive p n s)) =
     (senderLists s)[p := senderLists s ! p @
        filter (isLive s) (case receivedStream s of Some ts \<Rightarrow> ts | None \<Rightarrow> [])]"
proof -
  have "(senderLists s)[p := senderLists s ! p @ []] = senderLists s"
    by simp
  then show ?thesis
    by (simp add: waitReceiverLive_def Let_def senderLists_addTracks)
qed

lemma waitReceiverLive_isLive [simp]: "isLive (fst (waitReceiverLive p n s)) = isLive s"
  by (simp add: waitReceiverLive_def Let_def)

lemma bl_waitReceiverLive:
  assumes "bound_live (isLive s) old (senderLists s)"
  shows "bound_live (isLive s) old (senderLists (fst (waitReceiverLive p n s)))"
  unfolding waitReceiverLive_senderLists
  using assms by (rule bound_live_add) simp

lemma unchanged_monitorTrack [simp]:
  "senderLists (monitorTrack m s) = senderLists s" "isLive (monitorTrack m s) = isLive s"
  by (simp_all add: monitorTrack_def Let_def split: option.splits)

lemma unchanged_searchLive [simp]:
  "senderLists (fst (searchLive m n s)) = senderLists s"
  "isLive (fst (searchLive m n s)) = isLive s"
  by (simp_all add: searchLive_def Let_def split: option.splits)

lemma unchanged_trackEnded [simp]:
  "senderLists (trackEnded t s) = senderLists s" "isLive (trackEnded t s) = isLive s"
  by (simp_all add: trackEnded_def Let_def split: option.splits ended_handler.splits)

lemma unchanged_handleConnection [simp]:
  "senderLists (handleConnection c s) = senderLists s" "isLive (handleConnection c s) = isLive s"
  by (simp_all add: handleConnection_def handleConnectionAccept_def Let_def)

lemma unchanged_handleDisconnect [simp]:
  "senderLists (handleDisconnect c s) = senderLists s" "isLive (handleDisconnect c s) = isLive s"
  by (simp_all add: handleDisconnect_def Let_def split: option.splits)

lemma unchanged_handleAnswer [simp]:
  "senderLists (handleAnswer c ok s) = senderLists s" "isLive (handleAnswer c ok s) = isLive s"
  by (simp_all add: handleAnswer_def split: option.splits)

lemma unchanged_handleIceCandidate [simp]:
  "senderLists (handleIceCandidate c x ok s) = senderLists s"
  "isLive (handleIceCandidate c x ok s) = isLive s"
  by (simp_all add: handleIceCandidate_def tryAddIceCandidate_def Let_def split: option.splits)

lemma unchanged_onconnectionstatechange [simp]:
  "senderLists (onconnectionstatechange p st s) = senderLists s"
  "isLive (onconnectionstatechange p st s) = isLive s"
proof -
  define s1 where "s1 = s\<lparr>pcs := (pcs s)[p := (pcs s ! p)\<lparr>connectionState := st\<rparr>]\<rparr>"
  have s1: "senderLists s1 = senderLists s" "isLive s1 = isLive s"
    by (simp_all add: s1_def senderLists_def map_update_same)
  have eq: "onconnectionstatechange p st s =
     (case role (pcs s1 ! p) of
           Producer \<Rightarrow>
             (case senderPeerConnection s1 of
                Some q \<Rightarrow>
                  if connectionState (pcs s1 ! q) = Disconnected
                     \<or> connectionState (pcs s1 ! q) = Failed
                  then s1\<lparr>receivedStream := None\<rparr> else s1
              | None \<Rightarrow> s1)
         | Consumer \<Rightarrow>
             if st = Disconnected \<or> st = Failed
             then s1\<lparr>receiverPeerConnections :=
                       (receiverPeerConnections s1)(owner (pcs s1 ! p) := None)\<rparr>
             else s1)"
    unfolding onconnectionstatechange_def Let_def s1_def by (rule refl)
  from s1 show "senderLists (onconnectionstatechange p st s) = senderLists s"
    unfolding eq by (simp split: role.splits option.splits)
  from s1 show "isLive (onconnectionstatechange p st s) = isLive s"
    unfolding eq by (simp split: role.splits option.splits)
qed

lemma handleOffer_isLive [simp]: "isLive (handleOffer c s) = isLive s"
  by (simp add: handleOffer_def Let_def split: option.splits)

lemma bl_handleOffer:
  assumes "bound_live (isLive s) old (senderLists s)"
  shows "bound_live (isLive s) old (senderLists (handleOffer c s))"
proof (cases "wrtc s")
  case False
  with assms show ?thesis by (simp add: handleOffer_def)
next
  case True
  have "bound_live (isLive s) old (senderLists s @ [Nil])"
    using assms by (rule bound_live_append) simp
  with True show ?thesis
    by (simp add: handleOffer_def Let_def split: option.splits)
qed

lemma fold_isLive:
  assumes "\<And>x s. isLive (f x s) = isLive s"
  shows "isLive (fold f xs s) = isLive s"
  by (induction xs arbitrary: s) (simp_all add: assms)

lemma bl_fold:
  assumes "\<And>x s. isLive (f x s) = isLive s"
    and "\<And>x s old. bound_live (isLive s) old (senderLists s) \<Longrightarrow>
           bound_live (isLive s) old (senderLists (f x s))"
  shows "bound_live (isLive s) old (senderLists s) \<Longrightarrow>
         bound_live (isLive s) old (senderLists (fold f xs s))"
proof (induction xs arbitrary: s)
  case Nil
  then show ?case by simp
next
  case (Cons x xs)
  from assms(2) [OF Cons.prems, of x]
  have "bound_live (isLive (f x s)) old (senderLists (f x s))"
    by (simp add: assms(1))
  from Cons.IH [OF this] show ?case
    by (simp add: assms(1))
qed

lemma processLiveTrack_isLive [simp]:
  "isLive (processLiveTrack t streams sender ok s) = isLive s"
  unfolding processLiveTrack_def Let_def
  by (subst fold_isLive) simp_all

lemma bl_processLiveTrack:
  assumes "bound_live (isLive s) old (senderLists s)"
  shows "bound_live (isLive s) old (senderLists (processLiveTrack t streams sender ok s))"
proof -
  define s3 where "s3 = monitorTrack (length (currentTrack s))
      (s\<lparr>receivedStream := Some (case streams of [] \<Rightarrow> [t] | st # _ \<Rightarrow> st),
         currentTrack := currentTrack s @ [t],
         tracks := (tracks s)(t := (tracks s t)\<lparr>onended :=
                      Some (FindReplacement (length (currentTrack s)))\<rparr>)\<rparr>)"
  have s3: "isLive s3 = isLive s" "senderLists s3 = senderLists s"
    by (simp_all add: s3_def)
  have "bound_live (isLive s3) old (senderLists s3)"
    using assms by (simp add: s3)
  then have "bound_live (isLive s3) old
      (senderLists (fold (\<lambda>clientId s'.
                 if receiverPeerConnections s' clientId = None \<and> clientId \<noteq> sender
                 then createReceiverConnection clientId ok s' else s')
           (connections s3) s3))"
    by (rule bl_fold [rotated 2]) (simp_all add: bl_createReceiverConnection)
  then show ?thesis
    unfolding processLiveTrack_def Let_def s3_def [symmetric]
    by (simp add: s3 s3_def)
qed

lemma handleTrackReceived_isLive [simp]:
  "isLive (handleTrackReceived t streams sender ok s) = isLive s"
  by (simp add: handleTrackReceived_def)

lemma bl_handleTrackReceived:
  "bound_live (isLive s) old (senderLists s) \<Longrightarrow>
   bound_live (isLive s) old (senderLists (handleTrackReceived t streams sender ok s))"
  by (simp add: handleTrackReceived_def bl_processLiveTrack)

lemma waitTrackLive_isLive [simp]:
  "isLive (fst (waitTrackLive t streams sender n ok s)) = isLive s"
  by (simp add: waitTrackLive_def)

lemma bl_waitTrackLive:
  assumes "bound_live (isLive s) old (senderLists s)"
  shows "bound_live (isLive s) old (senderLists (fst (waitTrackLive t streams sender n ok s)))"
proof -
  let ?s = "emit [ClearInterval (WaitTrackLive t streams sender)] s"
  from assms have "bound_live (isLive ?s) old (senderLists ?s)" by simp
  from bl_processLiveTrack [OF this, of t streams sender ok] assms show ?thesis
    by (simp add: waitTrackLive_def)
qed

lemma ontrack_isLive [simp]: "isLive (ontrack p t streams ok s) = isLive s"
  by (simp add: ontrack_def)

lemma bl_ontrack:
  "bound_live (isLive s) old (senderLists s) \<Longrightarrow>
   bound_live (isLive s) old (senderLists (ontrack p t streams ok s))"
  by (simp add: ontrack_def bl_handleTrackReceived)

lemma checkTrackState_isLive [simp]:
  "isLive (fst (checkTrackState t streams sender n ok s)) = isLive s"
  by (simp add: checkTrackState_def Let_def)

lemma bl_checkTrackState:
  "bound_live (isLive s) old (senderLists s) \<Longrightarrow>
   bound_live (isLive s) old (senderLists (fst (checkTrackState t streams sender n ok s)))"
  by (simp add: checkTrackState_def Let_def bl_handleTrackReceived)

lemma bl_handleOfferResumed:
  assumes "bound_live (isLive s) old (senderLists s)"
  shows "bound_live (isLive s) old (senderLists (handleOfferResumed c p outcome ok s))"
proof (cases outcome)
  case Negotiated
  show ?thesis
  proof (cases "senderPeerConnection s")
    case None
    with Negotiated assms show ?thesis
      by (simp add: handleOfferResumed_def Let_def)
  next
    case (Some q)
    let ?s2 = "setLocalDescription q (setRemoteDescription p s)"
    from assms have "bound_live (isLive ?s2) old (senderLists ?s2)" by simp
    from bl_handleTrackReceived [OF this] assms Negotiated Some show ?thesis
      by (simp add: handleOfferResumed_def Let_def)
  qed
qed (use assms in \<open>simp_all add: handleOfferResumed_def\<close>)

lemma bl_fire:
  "bound_live (isLive s) old (senderLists s) \<Longrightarrow>
   bound_live (isLive s) old (senderLists (fire k n ok s))"
  by (cases k)
    (simp_all add: bl_createReceiverConnection bl_checkTrackState bl_waitTrackLive
      bl_waitReceiverLive)

lemma bl_step: "bound_live (isLive s) (senderLists s) (senderLists (step e s))"
proof (cases e)
  case (ReceiversChanged p ts)
  have "senderLists (s\<lparr>pcs := (pcs s)[p := (pcs s ! p)\<lparr>receivers := ts\<rparr>]\<rparr>) = senderLists s"
    by (simp add: senderLists_def map_update_same)
  with ReceiversChanged show ?thesis
    by (simp add: bound_live_refl)
qed (simp_all add: bound_live_refl handleConnectionAccept_def handleConnectionReject_def
      bl_handleOffer bl_handleOfferResumed bl_ontrack bl_fire)

lemma createReceiverConnection_trace:
  assumes "wrtc s" and "c \<in> set (connections s)"
  shows "trace (createReceiverConnection c ok s) =
     trace s
     @ (case receiverPeerConnections s c of Some old \<Rightarrow> [PcClosed old] | None \<Rightarrow> [])
     @ [PcCreated Consumer (length (pcs s))]
     @ (case receivedStream s of
          None \<Rightarrow> [Notice (NoStreamToSend c)]
        | Some ts \<Rightarrow>
            if filter (isLive s) ts = []
            then [Notice (NoLiveTrackInStream c),
                  SetInterval (WaitReceiverLive (length (pcs s))) 100]
            else [])
     @ [if ok then Emit c WebrtcOffer else Notice (ReceiverFailed c)]"
  using assms
  by (simp add: createReceiverConnection_def Let_def split: option.splits)

lemma waitReceiverLive_length:
  "length (pcs (fst (waitReceiverLive p n s))) = length (pcs s)"
  by (simp add: waitReceiverLive_def Let_def)

lemma waitReceiverLive_senders:
  assumes "p < length (pcs s)"
  shows "senders (pcs (fst (waitReceiverLive p n s)) ! p) =
           senders (pcs s ! p) @
             filter (isLive s) (case receivedStream s of Some ts \<Rightarrow> ts | None \<Rightarrow> [])"
proof -
  have "length (pcs (fst (waitReceiverLive p n s))) = length (pcs s)"
    by (rule waitReceiverLive_length)
  with assms have "senders (pcs (fst (waitReceiverLive p n s)) ! p)
      = senderLists (fst (waitReceiverLive p n s)) ! p"
    by (simp add: senderLists_nth)
  with assms show ?thesis
    by (simp add: waitReceiverLive_senderLists senderLists_nth)
qed

lemma waitReceiverLive_continues:
  "snd (waitReceiverLive p n s) =
     (filter (isLive s) (case receivedStream s of Some ts \<Rightarrow> ts | None \<Rightarrow> []) = []
      \<and> \<not> list_all (\<lambda>t. readyState (tracks s t) = Ended)
              (case receivedStream s of Some ts \<Rightarrow> ts | None \<Rightarrow> [])
      \<and> n + 1 < 100)"
  by (auto simp: waitReceiverLive_def Let_def)

lemma step_binds_live:
  assumes "q < length (pcs (step e s))" and "u \<in> set (senders (pcs (step e s) ! q))"
  shows "(q < length (pcs s) \<and> u \<in> set (senders (pcs s ! q))) \<or> readyState (tracks s u) = Live"
proof -
  from assms have "q < length (senderLists (step e s))" "u \<in> set (senderLists (step e s) ! q)"
    by (simp_all add: senderLists_nth)
  with bl_step [of s e]
  have "(q < length (senderLists s) \<and> u \<in> set (senderLists s ! q)) \<or> isLive s u"
    unfolding bound_live_def by blast
  then show ?thesis
    by (auto simp: senderLists_nth isLive_def)
qed




subsection \<open>The search for a replacement track\<close>

lemma liveVideoTracks_mem:
  "t \<in> set (liveVideoTracks s p) \<Longrightarrow>
   readyState (tracks s t) = Live \<and> kind (tracks s t) = Video \<and> t \<in> set (receivers (pcs s ! p))"
  by (auto simp: liveVideoTracks_def isLive_def)

lemma liveVideoTracks_frame [simp]:
  "liveVideoTracks (emit es s) = liveVideoTracks s"
  "liveVideoTracks (promote m t s) = liveVideoTracks s"
  "liveVideoTracks (s\<lparr>receivedStream := r\<rparr>) = liveVideoTracks s"
  by (simp_all add: liveVideoTracks_def fun_eq_iff isLive_def emit_def promote_def)

lemma pickReplacement_mem: "ts \<noteq> [] \<Longrightarrow> pickReplacement cur ts \<in> set ts"
  by (auto simp: pickReplacement_def find_Some_iff split: option.splits)

lemma monitorTrack_ended:
  assumes "senderPeerConnection s = Some p"
    and "readyState (tracks s (currentTrack s ! m)) = Ended"
  shows "liveVideoTracks s p = [] \<longrightarrow>
           monitorTrack m s = emit [Notice NoLiveTrackFound, SetInterval (SearchLive m) 200] s"
    and "liveVideoTracks s p \<noteq> [] \<longrightarrow>
           (\<exists>t \<in> set (liveVideoTracks s p).
              monitorTrack m s = emit [SetTimeout (MonitorTrack m) 2000] (promote m t s))"
  using assms pickReplacement_mem [of "liveVideoTracks s p" "currentTrack s ! m"]
  by (auto simp: monitorTrack_def Let_def)

lemma searchLive_continues:
  "snd (searchLive m k s) \<Longrightarrow> k + 1 < 50 \<and> fst (searchLive m k s) = s"
  by (auto simp: searchLive_def Let_def split: option.splits if_splits)

lemma searchLive_stops:
  assumes "\<not> snd (searchLive m k s)"
  shows "ClearInterval (SearchLive m) \<in> set (trace (fst (searchLive m k s)))
    \<and> (senderPeerConnection (fst (searchLive m k s)) = None
       \<or> (\<exists>p t. senderPeerConnection (fst (searchLive m k s)) = Some p
             \<and> t \<in> set (liveVideoTracks (fst (searchLive m k s)) p)
             \<and> receivedStream (fst (searchLive m k s)) = Some [t])
       \<or> receivedStream (fst (searchLive m k s)) = None \<and> 50 \<le> k + 1)"
proof (cases "senderPeerConnection s")
  case None
  then show ?thesis by (simp add: searchLive_def)
next
  case (Some p)
  show ?thesis
  proof (cases "liveVideoTracks s p = []")
    case True
    with Some assms show ?thesis
      by (simp add: searchLive_def Let_def split: if_splits)
  next
    case False
    then have "hd (liveVideoTracks s p) \<in> set (liveVideoTracks s p)" by simp
    with Some False show ?thesis
      by (simp add: searchLive_def Let_def)
  qed
qed

lemma checkInterval_outcome:
  "k < snd (checkInterval env m k s)
   \<and> (k < 50 \<longrightarrow> snd (checkInterval env m k s) \<le> 50)
   \<and> ClearInterval (SearchLive m) \<in> set (trace (fst (checkInterval env m k s)))
   \<and> (senderPeerConnection (fst (checkInterval env m k s)) = None
      \<or> (\<exists>p t. senderPeerConnection (fst (checkInterval env m k s)) = Some p
            \<and> t \<in> set (liveVideoTracks (fst (checkInterval env m k s)) p)
            \<and> receivedStream (fst (checkInterval env m k s)) = Some [t])
      \<or> receivedStream (fst (checkInterval env m k s)) = None
         \<and> 50 \<le> snd (checkInterval env m k s))"
proof (induction env m k s rule: checkInterval.induct)
  case (1 env m k s)
  show ?case
  proof (cases "snd (searchLive m k (env k s))")
    case True
    then have c: "k + 1 < 50"
      using searchLive_continues by blast
    have eq: "checkInterval env m k s
        = checkInterval env m (k + 1) (fst (searchLive m k (env k s)))"
      using True by (subst checkInterval.simps) (simp add: Let_def)
    from "1.IH" [OF refl True] c show ?thesis
      unfolding eq by auto
  next
    case False
    have eq: "checkInterval env m k s = (fst (searchLive m k (env k s)), k + 1)"
      using False by (subst checkInterval.simps) (simp add: Let_def)
    from searchLive_stops [OF False] show ?thesis
      unfolding eq by auto
  qed
qed

lemma checkInterval_gives_up:
  assumes "senderPeerConnection s = Some p" and "liveVideoTracks s p = []"
  shows "k < 50 \<Longrightarrow>
    checkInterval (\<lambda>k s. s) m k s =
      (emit [Notice SearchTimedOut, ClearInterval (SearchLive m)] (s\<lparr>receivedStream := None\<rparr>), 50)"
proof (induction "50 - k" arbitrary: k)
  case 0
  then show ?case by simp
next
  case (Suc d)
  show ?case
  proof (cases "k + 1 < 50")
    case True
    then have cont: "searchLive m k s = (s, True)"
      using assms by (simp add: searchLive_def Let_def)
    have "checkInterval (\<lambda>k s. s) m k s = checkInterval (\<lambda>k s. s) m (k + 1) s"
      by (subst checkInterval.simps) (simp add: Let_def cont)
    also have "\<dots> = (emit [Notice SearchTimedOut, ClearInterval (SearchLive m)]
                        (s\<lparr>receivedStream := None\<rparr>), 50)"
      using Suc.hyps(1) [of "k + 1"] Suc.hyps(2) True by simp
    finally show ?thesis .
  next
    case False
    with Suc.prems have k: "k = 49" by simp
    have stop: "searchLive m 49 s =
        (emit [Notice SearchTimedOut, ClearInterval (SearchLive m)] (s\<lparr>receivedStream := None\<rparr>),
         False)"
      using assms by (simp add: searchLive_def Let_def)
    show ?thesis
      unfolding k by (subst checkInterval.simps) (simp add: Let_def stop)
  qed
qed




subsection \<open>The received stream is only ever set from a live track\<close>

lemma set_from_live_same [simp]: "set_from_live s d (receivedStream s)"
  by (simp add: set_from_live_def)

lemma set_from_live_None [simp]: "set_from_live s d None"
  by (simp add: set_from_live_def)

lemma set_from_live_single: "readyState (tracks s t) = Live \<Longrightarrow> set_from_live s d (Some [t])"
  by (auto simp: set_from_live_def)

lemma set_from_live_weaken: "set_from_live s None r \<Longrightarrow> set_from_live s d r"
  by (auto simp: set_from_live_def)

lemma createReceiverConnection_stream [simp]:
  "receivedStream (createReceiverConnection c ok s) = receivedStream s"
  by (simp add: createReceiverConnection_def Let_def split: option.splits)

lemma fold_createReceiverConnection_stream:
  "receivedStream
     (fold (\<lambda>clientId s'.
              if receiverPeerConnections s' clientId = None \<and> clientId \<noteq> sender
              then createReceiverConnection clientId ok s' else s') cs s) = receivedStream s"
  by (induction cs arbitrary: s) simp_all

lemma monitorTrack_live:
  assumes "readyState (tracks s (currentTrack s ! m)) = Live" and "receivedStream s = Some st"
  shows "receivedStream (monitorTrack m s) = Some st"
  using assms by (simp add: monitorTrack_def Let_def split: option.splits)

lemma processLiveTrack_stream:
  assumes "readyState (tracks s t) = Live"
  shows "receivedStream (processLiveTrack t streams sender ok s) =
           Some (case streams of [] \<Rightarrow> [t] | st # _ \<Rightarrow> st)"
proof -
  define s2 where "s2 = s\<lparr>receivedStream := Some (case streams of [] \<Rightarrow> [t] | st # _ \<Rightarrow> st),
      currentTrack := currentTrack s @ [t],
      tracks := (tracks s)(t := (tracks s t)\<lparr>onended := Some (FindReplacement (length (currentTrack s)))\<rparr>)\<rparr>"
  have "readyState (tracks s2 (currentTrack s2 ! length (currentTrack s))) = Live"
    and "receivedStream s2 = Some (case streams of [] \<Rightarrow> [t] | st # _ \<Rightarrow> st)"
    using assms by (simp_all add: s2_def)
  then have "receivedStream (monitorTrack (length (currentTrack s)) s2)
      = Some (case streams of [] \<Rightarrow> [t] | st # _ \<Rightarrow> st)"
    by (rule monitorTrack_live)
  then show ?thesis
    unfolding processLiveTrack_def Let_def s2_def
    by (simp add: fold_createReceiverConnection_stream)
qed

lemma processLiveTrack_from_live:
  assumes "readyState (tracks s t) = Live"
  shows "set_from_live s (Some (t, streams)) (receivedStream (processLiveTrack t streams sender ok s))"
    and "set_from_live s d (receivedStream (processLiveTrack t [] sender ok s))"
  using assms
  by (auto simp: processLiveTrack_stream set_from_live_def split: list.splits)

lemma handleTrackReceived_not_live:
  "readyState (tracks s t) \<noteq> Live \<Longrightarrow>
   receivedStream (handleTrackReceived t streams sender ok s) = receivedStream s"
  by (simp add: handleTrackReceived_def)

lemma handleTrackReceived_from_live:
  "set_from_live s (Some (t, streams)) (receivedStream (handleTrackReceived t streams sender ok s))"
  "readyState (tracks s t) = Live \<Longrightarrow>
   set_from_live s d (receivedStream (handleTrackReceived t [] sender ok s))"
  by (simp_all add: handleTrackReceived_def processLiveTrack_from_live)

lemma ontrack_not_live:
  assumes "readyState (tracks s t) \<noteq> Live"
  shows "receivedStream (ontrack p t streams ok s) = receivedStream s"
    and "onended (tracks (ontrack p t streams ok s) t) = Some ClearStream"
    and "trace (ontrack p t streams ok s) =
           trace s @ [Notice (TrackNotLiveYet t),
                      SetInterval (CheckTrackState t streams (owner (pcs s ! p))) 100]"
  using assms by (simp_all add: ontrack_def)

lemma ontrack_from_live:
  "set_from_live s (Some (t, streams)) (receivedStream (ontrack p t streams ok s))"
  by (simp add: ontrack_def handleTrackReceived_from_live)

lemma checkTrackState_not_live:
  "readyState (tracks s t) \<noteq> Live \<Longrightarrow>
   receivedStream (fst (checkTrackState t streams sender n ok s)) = receivedStream s"
  by (simp add: checkTrackState_def Let_def)

lemma checkTrackState_live:
  "readyState (tracks s t) = Live \<Longrightarrow>
   receivedStream (fst (checkTrackState t streams sender n ok s)) =
     Some (case streams of [] \<Rightarrow> [t] | st # _ \<Rightarrow> st)"
  by (simp add: checkTrackState_def Let_def handleTrackReceived_def processLiveTrack_stream)

lemma checkTrackState_from_live:
  "set_from_live s (Some (t, streams)) (receivedStream (fst (checkTrackState t streams sender n ok s)))"
  using handleTrackReceived_from_live(1) [of s t streams sender ok]
  by (simp add: checkTrackState_def Let_def)

lemma waitTrackLive_not_live:
  "readyState (tracks s t) \<noteq> Live \<Longrightarrow>
   receivedStream (fst (waitTrackLive t streams sender n ok s)) = receivedStream s"
  by (simp add: waitTrackLive_def)

lemma waitTrackLive_from_live:
  "set_from_live s (Some (t, streams)) (receivedStream (fst (waitTrackLive t streams sender n ok s)))"
proof (cases "readyState (tracks s t) = Live")
  case True
  let ?s = "emit [ClearInterval (WaitTrackLive t streams sender)] s"
  have "readyState (tracks ?s t) = Live"
    using True by simp
  from processLiveTrack_from_live(1) [OF this, of streams sender ok] True show ?thesis
    by (simp add: waitTrackLive_def set_from_live_def)
next
  case False
  then show ?thesis
    by (simp add: waitTrackLive_not_live)
qed

lemma monitorTrack_from_live: "set_from_live s d (receivedStream (monitorTrack m s))"
proof (cases "senderPeerConnection s")
  case None
  then show ?thesis by (simp add: monitorTrack_def)
next
  case (Some p)
  show ?thesis
  proof (cases "liveVideoTracks s p = []")
    case True
    with Some show ?thesis
      by (simp add: monitorTrack_def Let_def)
  next
    case False
    from pickReplacement_mem [OF this, of "currentTrack s ! m"]
    have "readyState (tracks s (pickReplacement (currentTrack s ! m) (liveVideoTracks s p))) = Live"
      using liveVideoTracks_mem by blast
    then have "set_from_live s d
        (Some [pickReplacement (currentTrack s ! m) (liveVideoTracks s p)])"
      by (rule set_from_live_single)
    with Some False show ?thesis
      by (simp add: monitorTrack_def Let_def)
  qed
qed

lemma hd_liveVideoTracks:
  "liveVideoTracks s p \<noteq> [] \<Longrightarrow> readyState (tracks s (hd (liveVideoTracks s p))) = Live"
  using liveVideoTracks_mem [of "hd (liveVideoTracks s p)" s p] by simp

lemma searchLive_from_live: "set_from_live s d (receivedStream (fst (searchLive m n s)))"
  by (auto simp: searchLive_def Let_def set_from_live_single hd_liveVideoTracks
      split: option.splits)

lemma trackEnded_from_live: "set_from_live s d (receivedStream (trackEnded t s))"
  by (auto simp: trackEnded_def Let_def set_from_live_single hd_liveVideoTracks
      split: option.splits ended_handler.splits)

lemma waitReceiverLive_stream:
  "receivedStream (fst (waitReceiverLive p n s)) = receivedStream s"
  by (simp add: waitReceiverLive_def Let_def)

lemma handleOfferResumed_from_live:
  "set_from_live s d (receivedStream (handleOfferResumed c p outcome ok s))"
proof (cases outcome)
  case Negotiated
  show ?thesis
  proof (cases "senderPeerConnection s")
    case None
    with Negotiated show ?thesis
      by (simp add: handleOfferResumed_def Let_def)
  next
    case (Some q)
    let ?s2 = "setLocalDescription q (setRemoteDescription p s)"
    have same: "tracks ?s2 = tracks s" "receivedStream ?s2 = receivedStream s"
      by simp_all
    show ?thesis
    proof (cases "liveVideoTracks ?s2 q = []")
      case True
      with Negotiated Some show ?thesis
        by (simp add: handleOfferResumed_def Let_def)
    next
      case False
      from hd_liveVideoTracks [OF this]
      have "set_from_live ?s2 d
          (receivedStream (handleTrackReceived (hd (liveVideoTracks ?s2 q)) [] c ok ?s2))"
        by (rule handleTrackReceived_from_live(2))
      then have "set_from_live s d
          (receivedStream (handleTrackReceived (hd (liveVideoTracks ?s2 q)) [] c ok ?s2))"
        unfolding set_from_live_def same .
      with Negotiated Some False show ?thesis
        by (simp add: handleOfferResumed_def Let_def)
    qed
  qed
qed (simp_all add: handleOfferResumed_def)

lemma onconnectionstatechange_from_live:
  "set_from_live s d (receivedStream (onconnectionstatechange p st s))"
  by (simp add: onconnectionstatechange_def Let_def split: role.splits option.splits)

lemma handleDisconnect_from_live: "set_from_live s d (receivedStream (handleDisconnect c s))"
  by (simp add: handleDisconnect_def Let_def split: option.splits)

lemma fire_from_live: "set_from_live s (delivers (TimerFired k n ok)) (receivedStream (fire k n ok s))"
  by (cases k)
    (simp_all add: checkTrackState_from_live waitTrackLive_from_live monitorTrack_from_live
      searchLive_from_live waitReceiverLive_stream)

lemma step_from_live: "set_from_live s (delivers e) (receivedStream (step e s))"
proof (cases e)
  case (TimerFired k n ok)
  then show ?thesis
    using fire_from_live [of s k n ok] by simp
qed (simp_all add: handleConnection_def handleConnectionAccept_def handleConnectionReject_def
      Let_def handleDisconnect_from_live handleOffer_def handleOfferResumed_from_live
      handleAnswer_def handleIceCandidate_def tryAddIceCandidate_def ontrack_from_live
      trackEnded_from_live onconnectionstatechange_from_live split: option.splits)

lemma handleTrackReceived_not_live_trace:
  "readyState (tracks s t) \<noteq> Live \<Longrightarrow>
   trace (handleTrackReceived t streams c ok s) =
     trace s @ [Notice (TrackNotLiveYet t), SetInterval (WaitTrackLive t streams c) 100]"
  by (simp add: handleTrackReceived_def)

lemma checkTrackState_continues:
  "snd (checkTrackState t streams c n ok s) =
     (readyState (tracks s t) \<noteq> Live \<and> readyState (tracks s t) \<noteq> Ended \<and> n + 1 < 50)"
  by (auto simp: checkTrackState_def Let_def)

lemma waitTrackLive_continues:
  "snd (waitTrackLive t streams c n ok s) =
     (readyState (tracks s t) \<noteq> Live \<and> readyState (tracks s t) \<noteq> Ended \<and> n + 1 < 100)"
  by (auto simp: waitTrackLive_def)

lemma waitTrackLive_live:
  assumes "readyState (tracks s t) = Live"
  shows "receivedStream (fst (waitTrackLive t streams c n ok s)) =
           Some (case streams of [] \<Rightarrow> [t] | st # _ \<Rightarrow> st)"
proof -
  let ?s = "emit [ClearInterval (WaitTrackLive t streams c)] s"
  have "readyState (tracks ?s t) = Live"
    using assms by simp
  from processLiveTrack_stream [OF this, of streams c ok] assms show ?thesis
    by (simp add: waitTrackLive_def)
qed

lemma handleTrackReceived_live:
  "readyState (tracks s t) = Live \<Longrightarrow>
   receivedStream (handleTrackReceived t streams c ok s) =
     Some (case streams of [] \<Rightarrow> [t] | st # _ \<Rightarrow> st)"
  by (simp add: handleTrackReceived_def processLiveTrack_stream)

lemma ontrack_live:
  "readyState (tracks s t) = Live \<Longrightarrow>
   receivedStream (ontrack p t streams ok s) =
     Some (case streams of [] \<Rightarrow> [t] | st # _ \<Rightarrow> st)"
  by (simp add: ontrack_def handleTrackReceived_live)

text \<open>
  Claim C8. When a track is delivered to the producer connection and is not live,
  \<^verbatim>\<open>ontrack\<close> leaves the received stream as it is, keeps the track by installing its
  \<^verbatim>\<open>onended\<close> handler and starts the interval that polls it. \<^verbatim>\<open>handleTrackReceived\<close>,
  given a track that is not live, leaves the received stream as it is and starts its
  own interval. A firing of either interval leaves the received stream as it is
  while the track is not live, and the interval keeps running exactly as long as the
  track is neither live nor ended and its bound (50 firings, 100 firings) is not
  reached. Once the track is observed live, \<^verbatim>\<open>ontrack\<close>, \<^verbatim>\<open>handleTrackReceived\<close> and a
  firing of either interval promote it (the received stream becomes the first
  stream delivered with the track, or the track alone), and the interval stops. For
  every event of the hub: if the step sets the received stream to a new value \<open>st\<close>,
  then some track is live in the state the step starts from, and \<open>st\<close> is that track
  alone or the first stream the vendor delivered together with that track; the
  other tracks of such a stream are taken over with it and are not examined.
\<close>

theorem stream_set_from_live_track_only:
  "(readyState (tracks s t) \<noteq> Live \<longrightarrow>
      receivedStream (ontrack p t streams ok s) = receivedStream s
      \<and> onended (tracks (ontrack p t streams ok s) t) = Some ClearStream
      \<and> trace (ontrack p t streams ok s) =
           trace s @ [Notice (TrackNotLiveYet t),
                      SetInterval (CheckTrackState t streams (owner (pcs s ! p))) 100]
      \<and> receivedStream (fst (checkTrackState t streams c n ok s)) = receivedStream s
      \<and> receivedStream (handleTrackReceived t streams c ok s) = receivedStream s
      \<and> receivedStream (fst (waitTrackLive t streams c n ok s)) = receivedStream s
      \<and> trace (handleTrackReceived t streams c ok s) =
           trace s @ [Notice (TrackNotLiveYet t), SetInterval (WaitTrackLive t streams c) 100]
      \<and> snd (checkTrackState t streams c n ok s) =
           (readyState (tracks s t) \<noteq> Ended \<and> n + 1 < 50)
      \<and> snd (waitTrackLive t streams c n ok s) =
           (readyState (tracks s t) \<noteq> Ended \<and> n + 1 < 100))
   \<and> (readyState (tracks s t) = Live \<longrightarrow>
        receivedStream (fst (checkTrackState t streams c n ok s)) =
          Some (case streams of [] \<Rightarrow> [t] | st # _ \<Rightarrow> st)
        \<and> snd (checkTrackState t streams c n ok s) = False
        \<and> receivedStream (fst (waitTrackLive t streams c n ok s)) =
            Some (case streams of [] \<Rightarrow> [t] | st # _ \<Rightarrow> st)
        \<and> snd (waitTrackLive t streams c n ok s) = False
        \<and> receivedStream (handleTrackReceived t streams c ok s) =
            Some (case streams of [] \<Rightarrow> [t] | st # _ \<Rightarrow> st)
        \<and> receivedStream (ontrack p t streams ok s) =
            Some (case streams of [] \<Rightarrow> [t] | st # _ \<Rightarrow> st))
   \<and> (receivedStream (step e s) = Some st \<and> receivedStream (step e s) \<noteq> receivedStream s \<longrightarrow>
        (\<exists>t'. readyState (tracks s t') = Live
           \<and> (st = [t']
               \<or> (\<exists>streams'. delivers e = Some (t', streams') \<and> streams' \<noteq> []
                     \<and> st = hd streams'))))"
proof -
  have A: "readyState (tracks s t) \<noteq> Live \<longrightarrow>
      receivedStream (ontrack p t streams ok s) = receivedStream s
      \<and> onended (tracks (ontrack p t streams ok s) t) = Some ClearStream
      \<and> trace (ontrack p t streams ok s) =
           trace s @ [Notice (TrackNotLiveYet t),
                      SetInterval (CheckTrackState t streams (owner (pcs s ! p))) 100]
      \<and> receivedStream (fst (checkTrackState t streams c n ok s)) = receivedStream s
      \<and> receivedStream (handleTrackReceived t streams c ok s) = receivedStream s
      \<and> receivedStream (fst (waitTrackLive t streams c n ok s)) = receivedStream s
      \<and> trace (handleTrackReceived t streams c ok s) =
           trace s @ [Notice (TrackNotLiveYet t), SetInterval (WaitTrackLive t streams c) 100]
      \<and> snd (checkTrackState t streams c n ok s) =
           (readyState (tracks s t) \<noteq> Ended \<and> n + 1 < 50)
      \<and> snd (waitTrackLive t streams c n ok s) =
           (readyState (tracks s t) \<noteq> Ended \<and> n + 1 < 100)"
    by (simp add: ontrack_not_live checkTrackState_not_live handleTrackReceived_not_live
        waitTrackLive_not_live handleTrackReceived_not_live_trace checkTrackState_continues
        waitTrackLive_continues)
  have B: "readyState (tracks s t) = Live \<longrightarrow>
        receivedStream (fst (checkTrackState t streams c n ok s)) =
          Some (case streams of [] \<Rightarrow> [t] | st # _ \<Rightarrow> st)
        \<and> snd (checkTrackState t streams c n ok s) = False
        \<and> receivedStream (fst (waitTrackLive t streams c n ok s)) =
            Some (case streams of [] \<Rightarrow> [t] | st # _ \<Rightarrow> st)
        \<and> snd (waitTrackLive t streams c n ok s) = False
        \<and> receivedStream (handleTrackReceived t streams c ok s) =
            Some (case streams of [] \<Rightarrow> [t] | st # _ \<Rightarrow> st)
        \<and> receivedStream (ontrack p t streams ok s) =
            Some (case streams of [] \<Rightarrow> [t] | st # _ \<Rightarrow> st)"
    by (simp add: checkTrackState_live waitTrackLive_live handleTrackReceived_live ontrack_live
        checkTrackState_continues waitTrackLive_continues)
  have C: "receivedStream (step e s) = Some st \<and> receivedStream (step e s) \<noteq> receivedStream s \<longrightarrow>
        (\<exists>t'. readyState (tracks s t') = Live
           \<and> (st = [t']
               \<or> (\<exists>streams'. delivers e = Some (t', streams') \<and> streams' \<noteq> []
                     \<and> st = hd streams')))"
    using step_from_live [of s e] unfolding set_from_live_def by auto
  show ?thesis
    by (rule conjI [OF A conjI [OF B C]])
qed

theorem stream_set_from_live_track_only_witness:
  "readyState (tracks (run pendingTrack hub0) ''t1'') = PendingLive
   \<and> receivedStream (run pendingTrack hub0) = None
   \<and> receivedStream (step (TrackDelivered 0 ''t1'' ([''t1''] # []) True) (run pendingTrack hub0)) = None
   \<and> last (trace (step (TrackDelivered 0 ''t1'' ([''t1''] # []) True) (run pendingTrack hub0)))
       = SetInterval (CheckTrackState ''t1'' ([''t1''] # []) ''P'') 100
   \<and> last (trace (handleTrackReceived ''t1'' [] ''P'' True (run pendingTrack hub0)))
       = SetInterval (WaitTrackLive ''t1'' [] ''P'') 100
   \<and> snd (waitTrackLive ''t1'' [] ''P'' 0 True (run pendingTrack hub0))
   \<and> receivedStream
       (step (TimerFired (CheckTrackState ''t1'' ([''t1''] # []) ''P'') 0 True)
          (step (ReadyStateChanged ''t1'' Live)
             (step (TrackDelivered 0 ''t1'' ([''t1''] # []) True) (run pendingTrack hub0))))
       = Some [''t1'']
   \<and> receivedStream
       (step (TimerFired (WaitTrackLive ''t1'' [] ''P'') 0 True)
          (step (ReadyStateChanged ''t1'' Live)
             (step (TrackDelivered 0 ''t1'' ([''t1''] # []) True) (run pendingTrack hub0))))
       = Some [''t1'']"
proof -
  define s where "s = run pendingTrack hub0"
  define s1 where "s1 = step (ReadyStateChanged ''t1'' Live)
             (step (TrackDelivered 0 ''t1'' ([''t1''] # []) True) s)"
  have a: "readyState (tracks s ''t1'') = PendingLive \<and> receivedStream s = None
      \<and> length (pcs s) = 1 \<and> role (pcs s ! 0) = Producer \<and> owner (pcs s ! 0) = ''P''"
    unfolding s_def by (simp add: hub_defs Let_def)
  have b: "readyState (tracks s1 ''t1'') = Live"
    unfolding s1_def by simp
  from a stream_set_from_live_track_only
    [where s = s and t = "''t1''" and p = 0 and streams = "[''t1''] # []" and ok = True]
  have 1: "receivedStream (step (TrackDelivered 0 ''t1'' ([''t1''] # []) True) s) = None
      \<and> last (trace (step (TrackDelivered 0 ''t1'' ([''t1''] # []) True) s))
          = SetInterval (CheckTrackState ''t1'' ([''t1''] # []) ''P'') 100"
    by simp
  from a stream_set_from_live_track_only
    [where s = s and t = "''t1''" and streams = "[]" and ok = True and c = "''P''" and n = 0]
  have 2: "last (trace (handleTrackReceived ''t1'' [] ''P'' True s))
          = SetInterval (WaitTrackLive ''t1'' [] ''P'') 100
      \<and> snd (waitTrackLive ''t1'' [] ''P'' 0 True s)"
    by simp
  from b stream_set_from_live_track_only
    [where s = s1 and t = "''t1''" and streams = "[''t1''] # []" and ok = True and c = "''P''"
       and n = 0]
  have 3: "receivedStream (step (TimerFired (CheckTrackState ''t1'' ([''t1''] # []) ''P'') 0 True) s1)
      = Some [''t1'']"
    by simp
  from b stream_set_from_live_track_only
    [where s = s1 and t = "''t1''" and streams = "[]" and ok = True and c = "''P''" and n = 0]
  have 4: "receivedStream (step (TimerFired (WaitTrackLive ''t1'' [] ''P'') 0 True) s1)
      = Some [''t1'']"
    by simp
  from a 1 2 3 4 show ?thesis
    unfolding s_def s1_def by simp
qed

end
